theory Spec2Isabelle
  imports Complex_Main
begin

section \<open>Numbers\<close>

text \<open>
  A JavaScript number is a binary64 value: a finite one, an infinity or NaN.
  \<open>Finite r\<close> stands for the finite value \<open>r\<close>; the two zeros are one value, since no
  operation of the two classes tells them apart. Arithmetic computes the exact result
  and rounds it to binary64: to the nearest value, a tie to the one with the even
  significand, with gradual underflow below \<open>2 ^ (- 1022)\<close> and overflow to an infinity
  from \<open>2 ^ 1024\<close> on.
\<close>

datatype number = Finite real | Infinity | Minus_Infinity | NaN

definition round_half_even :: "real \<Rightarrow> int" where
  "round_half_even q =
     (let f = \<lfloor>q\<rfloor>; d = q - of_int f
      in if d < 1 / 2 then f else if 1 / 2 < d then f + 1 else if even f then f else f + 1)"

definition round64 :: "real \<Rightarrow> number" where
  "round64 r =
     (if r = 0 then Finite 0
      else
        (let e = max \<lfloor>log 2 \<bar>r\<bar>\<rfloor> (- 1022);
             ulp = 2 powr of_int (e - 52);
             v = of_int (round_half_even (r / ulp)) * ulp
         in if 2 ^ 1024 \<le> \<bar>v\<bar> then (if 0 < r then Infinity else Minus_Infinity)
            else Finite v))"

text \<open>The operators \<open>+\<close>, unary and binary \<open>-\<close>, \<open>*\<close>, \<open><\<close>, \<open>>\<close>, \<open>>=\<close> and \<open><=\<close>.\<close>

fun plus_number :: "number \<Rightarrow> number \<Rightarrow> number" where
  "plus_number NaN b = NaN"
| "plus_number a NaN = NaN"
| "plus_number (Finite a) (Finite b) = round64 (a + b)"
| "plus_number Infinity Minus_Infinity = NaN"
| "plus_number Minus_Infinity Infinity = NaN"
| "plus_number Infinity b = Infinity"
| "plus_number a Infinity = Infinity"
| "plus_number Minus_Infinity b = Minus_Infinity"
| "plus_number a Minus_Infinity = Minus_Infinity"

fun negate :: "number \<Rightarrow> number" where
  "negate (Finite a) = Finite (- a)"
| "negate Infinity = Minus_Infinity"
| "negate Minus_Infinity = Infinity"
| "negate NaN = NaN"

definition minus_number :: "number \<Rightarrow> number \<Rightarrow> number" where
  "minus_number a b = plus_number a (negate b)"

fun times_number :: "number \<Rightarrow> number \<Rightarrow> number" where
  "times_number NaN b = NaN"
| "times_number a NaN = NaN"
| "times_number (Finite a) (Finite b) = round64 (a * b)"
| "times_number (Finite a) Infinity =
     (if a = 0 then NaN else if 0 < a then Infinity else Minus_Infinity)"
| "times_number (Finite a) Minus_Infinity =
     (if a = 0 then NaN else if 0 < a then Minus_Infinity else Infinity)"
| "times_number Infinity (Finite b) =
     (if b = 0 then NaN else if 0 < b then Infinity else Minus_Infinity)"
| "times_number Minus_Infinity (Finite b) =
     (if b = 0 then NaN else if 0 < b then Minus_Infinity else Infinity)"
| "times_number Infinity Infinity = Infinity"
| "times_number Infinity Minus_Infinity = Minus_Infinity"
| "times_number Minus_Infinity Infinity = Minus_Infinity"
| "times_number Minus_Infinity Minus_Infinity = Infinity"

fun less_number :: "number \<Rightarrow> number \<Rightarrow> bool" where
  "less_number NaN b = False"
| "less_number a NaN = False"
| "less_number (Finite a) (Finite b) = (a < b)"
| "less_number a Minus_Infinity = False"
| "less_number Infinity b = False"
| "less_number Minus_Infinity b = True"
| "less_number a Infinity = True"

definition greater_number :: "number \<Rightarrow> number \<Rightarrow> bool" where
  "greater_number a b = less_number b a"

definition greater_eq_number :: "number \<Rightarrow> number \<Rightarrow> bool" where
  "greater_eq_number a b = (a \<noteq> NaN \<and> b \<noteq> NaN \<and> \<not> less_number a b)"

definition less_eq_number :: "number \<Rightarrow> number \<Rightarrow> bool" where
  "less_eq_number a b = greater_eq_number b a"

text \<open>\<open>Math.max\<close>, \<open>Math.min\<close> and \<open>Math.abs\<close>; a NaN argument gives NaN.\<close>

definition Math_max :: "number \<Rightarrow> number \<Rightarrow> number" where
  "Math_max a b = (if a = NaN \<or> b = NaN then NaN else if less_number a b then b else a)"

definition Math_min :: "number \<Rightarrow> number \<Rightarrow> number" where
  "Math_min a b = (if a = NaN \<or> b = NaN then NaN else if less_number b a then b else a)"

fun Math_abs :: "number \<Rightarrow> number" where
  "Math_abs (Finite a) = Finite \<bar>a\<bar>"
| "Math_abs Infinity = Infinity"
| "Math_abs Minus_Infinity = Infinity"
| "Math_abs NaN = NaN"

section \<open>Values, registries and JavaScript array helpers\<close>

text \<open>
  Materials and puzzle objects are compared by reference in the source (\<open>indexOf\<close>,
  \<open>===\<close>), and their fields are never written. An object is therefore modelled by its
  reference alone; two objects are the same object iff their references are equal.
  \<open>Obj n\<close> is an object of the game, \<open>Inherited k\<close> the value of the property \<open>k\<close> that
  every plain object inherits (a function, or the prototype itself for \<open>__proto__\<close>),
  which is an object too and differs from every object of the game. An inventory slot
  holds a JavaScript value: an object reference or \<open>undefined\<close> (\<open>None\<close>).
\<close>

datatype ref = Obj nat | Inherited string

type_synonym val = "ref option"
type_synonym registry = "(string \<times> ref) list"

datatype error = TypeError | Error string

text \<open>
  The registry of \<open>puzzleObject.ts\<close>, in the order of the object literal. The five
  definitions are five distinct objects, numbered in that order.
\<close>

definition puzzleObjects :: registry where
  "puzzleObjects =
     [(''key'', Obj 0), (''small-key'', Obj 1), (''big-key'', Obj 2), (''radio'', Obj 3),
      (''gravity-stone'', Obj 4)]"

text \<open>
  The names of the properties that a plain object inherits from \<open>Object.prototype\<close> in a
  browser.
\<close>

definition inherited_keys :: "string list" where
  "inherited_keys =
     [''constructor'', ''hasOwnProperty'', ''isPrototypeOf'', ''propertyIsEnumerable'',
      ''toLocaleString'', ''toString'', ''valueOf'', ''__proto__'', ''__defineGetter__'',
      ''__defineSetter__'', ''__lookupGetter__'', ''__lookupSetter__'']"

text \<open>
  \<open>registry[key]\<close>: the definition when the key is one of the registry, the inherited
  value when it names an inherited property, and \<open>undefined\<close> otherwise.
\<close>

definition lookup :: "registry \<Rightarrow> string \<Rightarrow> val" where
  "lookup reg k =
     (case map_of reg k of
        Some r \<Rightarrow> Some r
      | None \<Rightarrow> if k \<in> set inherited_keys then Some (Inherited k) else None)"

text \<open>\<open>Array.prototype.indexOf\<close>: the first index holding the value, or -1.\<close>

fun indexOf :: "'a list \<Rightarrow> 'a \<Rightarrow> int" where
  "indexOf [] v = - 1"
| "indexOf (x # xs) v =
     (if x = v then 0 else (let i = indexOf xs v in if i = - 1 then - 1 else i + 1))"

text \<open>
  \<open>Array.prototype.splice(start, deleteCount, ...items)\<close>, returning the array after
  the call: a negative start counts from the end and is clamped at 0, a start past the
  end is clamped at the length, and the delete count is clamped to what is left.
\<close>

definition array_splice :: "'a list \<Rightarrow> int \<Rightarrow> int \<Rightarrow> 'a list \<Rightarrow> 'a list" where
  "array_splice xs start deleteCount items =
     (let len = int (length xs);
          s = (if start < 0 then max (len + start) 0 else min start len);
          d = min (max deleteCount 0) (len - s)
      in take (nat s) xs @ items @ drop (nat (s + d)) xs)"

text \<open>
  \<open>getPuzzleObjectType\<close>: the key of the first registry entry whose value is the given
  object; throws when there is none.
\<close>

definition reverse_lookup :: "registry \<Rightarrow> val \<Rightarrow> error + string" where
  "reverse_lookup reg v =
     (case List.find (\<lambda>(_, po). Some po = v) reg of
        None \<Rightarrow> Inl (Error ''PuzzleObject not found.'')
      | Some entry \<Rightarrow> Inr (fst entry))"

definition getPuzzleObjectType :: "val \<Rightarrow> error + string" where
  "getPuzzleObjectType puzzleObject = reverse_lookup puzzleObjects puzzleObject"

text \<open>
  Modelled from the spec: \<open>getMaterialType\<close> and the registry \<open>materials\<close> live in
  \<open>material.js\<close>, which is not part of the sources. The registry is a parameter; the
  reverse lookup is the one the spec describes for both registries (the key of the
  definition, an error when the definition is not in the mapping), as
  \<open>getPuzzleObjectType\<close> implements it.
\<close>

definition getMaterialType :: "registry \<Rightarrow> val \<Rightarrow> error + string" where
  "getMaterialType materials mat = reverse_lookup materials mat"

text \<open>
  \<open>array.find(v => typeOf(v) === applyTo)\<close> where the callback may throw: the first
  element of the given type (\<open>undefined\<close> when there is none), or the error of the
  first callback that throws before a match.
\<close>

fun find_type :: "(val \<Rightarrow> error + string) \<Rightarrow> string \<Rightarrow> val list \<Rightarrow> error + val" where
  "find_type typeOf applyTo [] = Inr None"
| "find_type typeOf applyTo (v # vs) =
     (case typeOf v of
        Inl e \<Rightarrow> Inl e
      | Inr k \<Rightarrow> if k = applyTo then Inr v else find_type typeOf applyTo vs)"

text \<open>\<open>array.map(f)\<close> where \<open>f\<close> may throw.\<close>

fun map_throwing :: "('a \<Rightarrow> error + 'b) \<Rightarrow> 'a list \<Rightarrow> error + 'b list" where
  "map_throwing f [] = Inr []"
| "map_throwing f (v # vs) =
     (case f v of
        Inl e \<Rightarrow> Inl e
      | Inr k \<Rightarrow> (case map_throwing f vs of Inl e \<Rightarrow> Inl e | Inr ks \<Rightarrow> Inr (k # ks)))"

section \<open>Player\<close>

text \<open>
  Calls to the collaborators that are outside the sources (audio, toast, hotbar, save)
  are recorded in a trace, in call order, and are taken to return; the game that
  \<open>window.game!.save()\<close> asserts is a global of the page and is taken to exist. A
  hotbar item is built from one object (its image, its name and a callback closed over
  it), so the trace records the object.
\<close>

datatype cue = Bad_job_4 | Great_jearb_06 | Chimes_002

datatype message =
    Cant_hold_that_many
  | Already_got_one
  | Goes_in_a_cauldron
  | Cannot_reach_that
  | Nowhere_to_put_it

datatype effect =
    PlaySFX cue
  | Toast message
  | Save
  | HotbarSetCapacity number
  | HotbarAddItem ref
  | HotbarRemoveItem ref
  | HotbarRemoveItemByName ref

record Player =
  p_x :: number
  p_y :: number
  p_z :: number
  targetX :: number
  materialInventorySize :: number
  heldMaterials :: "val list"
  heldPuzzleObjects :: "val list"
  effects :: "effect list"

record PlayerData =
  d_x :: number
  d_y :: number
  d_heldMaterials :: "string list"
  d_heldPuzzleObjects :: "string list"
  d_materialInventorySize :: "number option"

record Potion =
  applyTo :: string
  turnsInto :: string

definition emit :: "effect \<Rightarrow> Player \<Rightarrow> Player" where
  "emit e p = p\<lparr>effects := effects p @ [e]\<rparr>"

text \<open>
  \<open>tick(dt)\<close> and \<open>canReach(x, y)\<close>. The product, the sum and the differences are
  those of JavaScript numbers: each is rounded to binary64.
\<close>

definition tick :: "number \<Rightarrow> Player \<Rightarrow> Player" where
  "tick dt p =
     (let maxMovement = times_number (Finite 500) dt in
      if greater_number (p_x p) (targetX p) then
        p\<lparr>p_x := Math_max (minus_number (p_x p) maxMovement) (targetX p)\<rparr>
      else if less_number (p_x p) (targetX p) then
        p\<lparr>p_x := Math_min (plus_number (p_x p) maxMovement) (targetX p)\<rparr>
      else p)"

definition canReach :: "Player \<Rightarrow> number \<Rightarrow> number \<Rightarrow> bool" where
  "canReach p x y = less_number (Math_abs (minus_number x (p_x p))) (Finite 200)"


definition hasPuzzleObject :: "Player \<Rightarrow> val \<Rightarrow> bool" where
  "hasPuzzleObject p obj = (indexOf (heldPuzzleObjects p) obj \<noteq> - 1)"

definition hasMaterial :: "Player \<Rightarrow> val \<Rightarrow> bool" where
  "hasMaterial p mat = (indexOf (heldMaterials p) mat \<noteq> - 1)"

definition tossPuzzleObject :: "ref \<Rightarrow> Player \<Rightarrow> Player" where
  "tossPuzzleObject obj p =
     emit (HotbarRemoveItemByName obj)
       (p\<lparr>heldPuzzleObjects :=
            array_splice (heldPuzzleObjects p) (indexOf (heldPuzzleObjects p) (Some obj)) 1 []\<rparr>)"



text \<open>
  \<open>takePuzzleObject\<close> pushes its argument first and reads \<open>obj.inventoryImageUrl\<close>
  afterwards; the read throws a TypeError when the argument is \<open>undefined\<close>, which is
  what the constructor passes for a key that is not in the registry.
\<close>

definition takePuzzleObject :: "val \<Rightarrow> bool \<Rightarrow> Player \<Rightarrow> error + Player" where
  "takePuzzleObject obj isInitializing p =
     (let p1 = p\<lparr>heldPuzzleObjects := heldPuzzleObjects p @ [obj]\<rparr>;
          p2 = (if \<not> isInitializing then emit (PlaySFX Chimes_002) p1 else p1)
      in case obj of
           None \<Rightarrow> Inl TypeError
         | Some r \<Rightarrow>
             (let p3 = emit (HotbarAddItem r) p2
              in Inr (if \<not> isInitializing then emit Save p3 else p3)))"

text \<open>
  \<open>takeMaterial\<close>. The capacity is the number the constructor was given, which nothing
  validates, and the test is \<open>length >= materialInventorySize\<close> on numbers. The read
  of \<open>mat.inventoryImageUrl\<close> comes after the push and throws a TypeError when the
  argument is \<open>undefined\<close>.
\<close>

definition takeMaterial :: "val \<Rightarrow> bool \<Rightarrow> Player \<Rightarrow> error + Player" where
  "takeMaterial mat isInitializing p =
     (if greater_eq_number (Finite (real (length (heldMaterials p))))
           (materialInventorySize p) then
        Inr (emit (Toast Cant_hold_that_many) (emit (PlaySFX Bad_job_4) p))
      else if hasMaterial p mat then
        Inr (emit (Toast Already_got_one) (emit (PlaySFX Bad_job_4) p))
      else
        (let p1 = (if \<not> isInitializing then emit (PlaySFX Great_jearb_06) p else p);
             p2 = p1\<lparr>heldMaterials := heldMaterials p1 @ [mat]\<rparr>
         in case mat of
              None \<Rightarrow> Inl TypeError
            | Some r \<Rightarrow>
                (let p3 = emit (HotbarAddItem r) p2
                 in Inr (if \<not> isInitializing then emit Save p3 else p3))))"



definition applyPotion :: "registry \<Rightarrow> Potion \<Rightarrow> Player \<Rightarrow> error + (bool \<times> Player)" where
  "applyPotion materials potion p =
     (case find_type (getMaterialType materials) (applyTo potion) (heldMaterials p) of
        Inl e \<Rightarrow> Inl e
      | Inr materialToApplyTo \<Rightarrow>
     (case find_type getPuzzleObjectType (applyTo potion) (heldPuzzleObjects p) of
        Inl e \<Rightarrow> Inl e
      | Inr puzzleObjectToApplyTo \<Rightarrow>
          if materialToApplyTo \<noteq> None then
            (let newMaterial = lookup materials (turnsInto potion)
             in Inr (True, p\<lparr>heldMaterials :=
                   array_splice (heldMaterials p) (indexOf (heldMaterials p) materialToApplyTo) 1
                     [newMaterial]\<rparr>))
          else if puzzleObjectToApplyTo \<noteq> None then
            (let newPuzzleObject = lookup puzzleObjects (turnsInto potion)
             in Inr (True, p\<lparr>heldPuzzleObjects :=
                   array_splice (heldPuzzleObjects p)
                     (indexOf (heldPuzzleObjects p) puzzleObjectToApplyTo) 1
                     [newPuzzleObject]\<rparr>))
          else Inr (False, p)))"

definition serialize :: "registry \<Rightarrow> Player \<Rightarrow> error + PlayerData" where
  "serialize materials p =
     (case map_throwing (getMaterialType materials) (heldMaterials p) of
        Inl e \<Rightarrow> Inl e
      | Inr ms \<Rightarrow>
     (case map_throwing getPuzzleObjectType (heldPuzzleObjects p) of
        Inl e \<Rightarrow> Inl e
      | Inr pos \<Rightarrow>
          Inr \<lparr>d_x = p_x p, d_y = p_y p, d_heldMaterials = ms, d_heldPuzzleObjects = pos,
               d_materialInventorySize = Some (materialInventorySize p)\<rparr>))"

text \<open>The two loops of the constructor; a throwing call ends the construction.\<close>

fun takeMaterials :: "registry \<Rightarrow> string list \<Rightarrow> Player \<Rightarrow> error + Player" where
  "takeMaterials materials [] p = Inr p"
| "takeMaterials materials (mat # rest) p =
     (case takeMaterial (lookup materials mat) True p of
        Inl e \<Rightarrow> Inl e
      | Inr p' \<Rightarrow> takeMaterials materials rest p')"

fun takePuzzleObjects :: "string list \<Rightarrow> Player \<Rightarrow> error + Player" where
  "takePuzzleObjects [] p = Inr p"
| "takePuzzleObjects (po # rest) p =
     (case takePuzzleObject (lookup puzzleObjects po) True p of
        Inl e \<Rightarrow> Inl e
      | Inr p' \<Rightarrow> takePuzzleObjects rest p')"

text \<open>
  The constructor, which is all that \<open>Player.deserialize\<close> runs once its two images
  are loaded. The images only matter to \<open>draw\<close> and are left out.
\<close>

definition new_Player :: "registry \<Rightarrow> PlayerData \<Rightarrow> error + Player" where
  "new_Player materials playerData =
     (let size = (case d_materialInventorySize playerData of None \<Rightarrow> Finite 5 | Some n \<Rightarrow> n);
          p0 = \<lparr>p_x = d_x playerData, p_y = d_y playerData, p_z = Finite 1,
                targetX = d_x playerData, materialInventorySize = size,
                heldMaterials = [], heldPuzzleObjects = [],
                effects = [HotbarSetCapacity size]\<rparr>
      in case takeMaterials materials (d_heldMaterials playerData) p0 of
           Inl e \<Rightarrow> Inl e
         | Inr p1 \<Rightarrow> takePuzzleObjects (d_heldPuzzleObjects playerData) p1)"

section \<open>PuzzleObjectSpawner\<close>


record PuzzleObjectSpawner =
  sp_x :: number
  sp_y :: number
  width :: number
  height :: number
  puzzleObject :: ref





section \<open>Sequences of operations\<close>

text \<open>\<open>takeMaterial\<close> called with one material after the other.\<close>

fun takeMaterial_calls :: "(ref \<times> bool) list \<Rightarrow> Player \<Rightarrow> error + Player" where
  "takeMaterial_calls [] p = Inr p"
| "takeMaterial_calls ((mat, isInitializing) # rest) p =
     (case takeMaterial (Some mat) isInitializing p of
        Inl e \<Rightarrow> Inl e
      | Inr p' \<Rightarrow> takeMaterial_calls rest p')"





text \<open>A value is registered when it is the definition of some key of the registry.\<close>

definition registered :: "registry \<Rightarrow> val \<Rightarrow> bool" where
  "registered reg v = (case v of None \<Rightarrow> False | Some r \<Rightarrow> r \<in> snd ` set reg)"

section \<open>A small game state\<close>

text \<open>
  A material registry with three definitions, and a player at x = 100 who can hold two
  materials and holds the wood and the key.
\<close>

definition example_materials :: registry where
  "example_materials = [(''wood'', Obj 10), (''stone'', Obj 11), (''charcoal'', Obj 12)]"

definition example_player :: Player where
  "example_player =
     \<lparr>p_x = Finite 100, p_y = Finite 300, p_z = Finite 1, targetX = Finite 100,
      materialInventorySize = Finite 2, heldMaterials = [Some (Obj 10)],
      heldPuzzleObjects = [Some (Obj 0)], effects = []\<rparr>"


section \<open>Array helpers\<close>

lemma indexOf_ge: "- 1 \<le> indexOf xs v"
  by (induction xs) (auto simp: Let_def)

lemma indexOf_absent: "indexOf xs v = - 1 \<longleftrightarrow> v \<notin> set xs"
proof (induction xs)
  case Nil
  show ?case by simp
next
  case (Cons x xs)
  have "- 1 \<le> indexOf xs v" by (rule indexOf_ge)
  with Cons show ?case by (auto simp: Let_def)
qed

lemma indexOf_first:
  "i < length xs \<Longrightarrow> xs ! i = v \<Longrightarrow> (\<forall>j<i. xs ! j \<noteq> v) \<Longrightarrow> indexOf xs v = int i"
proof (induction xs arbitrary: i)
  case Nil
  then show ?case by simp
next
  case (Cons x xs)
  show ?case
  proof (cases i)
    case 0
    with Cons.prems show ?thesis by simp
  next
    case (Suc k)
    with Cons.prems have x: "x \<noteq> v" by auto
    from Suc Cons.prems have "k < length xs" "xs ! k = v" "\<forall>j<k. xs ! j \<noteq> v" by auto
    then have "indexOf xs v = int k" by (rule Cons.IH)
    with x Suc show ?thesis by (simp add: Let_def)
  qed
qed

lemma indexOf_present:
  "v \<in> set xs \<Longrightarrow> 0 \<le> indexOf xs v \<and> indexOf xs v < int (length xs) \<and> xs ! nat (indexOf xs v) = v"
proof (induction xs)
  case Nil
  then show ?case by simp
next
  case (Cons x xs)
  show ?case
  proof (cases "x = v")
    case True
    then show ?thesis by simp
  next
    case False
    with Cons.prems have "v \<in> set xs" by simp
    then have ih: "0 \<le> indexOf xs v \<and> indexOf xs v < int (length xs) \<and> xs ! nat (indexOf xs v) = v"
      by (rule Cons.IH)
    then have "0 \<le> indexOf xs v" by simp
    then have "nat (indexOf xs v + 1) = Suc (nat (indexOf xs v))" by arith
    with False ih show ?thesis by (simp add: Let_def)
  qed
qed

lemma array_splice_replace:
  "i < length xs \<Longrightarrow> array_splice xs (int i) 1 [y] = xs[i := y]"
  by (simp add: array_splice_def Let_def upd_conv_take_nth_drop min_def max_def nat_add_distrib)


lemma array_splice_minus1: "array_splice xs (- 1) 1 [] = butlast xs"
proof (cases "xs = []")
  case True
  then show ?thesis by (simp add: array_splice_def)
next
  case False
  then have "length xs \<ge> 1" by (cases xs) auto
  then have s: "nat (max (int (length xs) - 1) 0) = length xs - 1" by arith
  have "take (length xs - 1) xs = butlast xs" by (simp add: butlast_conv_take)
  with \<open>length xs \<ge> 1\<close> show ?thesis
    by (simp add: array_splice_def Let_def s)
qed

lemma emit_fields [simp]:
  "p_x (emit e p) = p_x p" "p_y (emit e p) = p_y p" "p_z (emit e p) = p_z p"
  "targetX (emit e p) = targetX p"
  "materialInventorySize (emit e p) = materialInventorySize p"
  "heldMaterials (emit e p) = heldMaterials p"
  "heldPuzzleObjects (emit e p) = heldPuzzleObjects p"
  "effects (emit e p) = effects p @ [e]"
  by (simp_all add: emit_def)

section \<open>Rounding to binary64\<close>

text \<open>
  The rounding function is monotone, commutes with negation, and is computed on a
  given number from its binade.
\<close>

lemma floor_log2:
  assumes "0 < x" and "2 powr of_int k \<le> x" and "x < 2 powr of_int (k + 1)"
  shows "\<lfloor>log 2 x\<rfloor> = k"
  using assms by (simp add: floor_log_eq_powr_iff)

lemma round_half_even_cases:
  "round_half_even q = \<lfloor>q\<rfloor> \<or> round_half_even q = \<lfloor>q\<rfloor> + 1"
  by (simp add: round_half_even_def Let_def)

lemma round_half_even_ge: "of_int k \<le> q \<Longrightarrow> k \<le> round_half_even q"
proof -
  assume "of_int k \<le> q"
  then have "k \<le> \<lfloor>q\<rfloor>" by (simp add: le_floor_iff)
  with round_half_even_cases [of q] show ?thesis by auto
qed

lemma round_half_even_le: "q \<le> of_int k \<Longrightarrow> round_half_even q \<le> k"
proof (cases "q = of_int k")
  case True
  then show ?thesis by (simp add: round_half_even_def Let_def)
next
  case False
  assume "q \<le> of_int k"
  with False have "q < of_int k" by simp
  then have "\<lfloor>q\<rfloor> < k" by (simp add: floor_less_iff)
  with round_half_even_cases [of q] show ?thesis by auto
qed

lemma round_half_even_below:
  assumes "q < of_int k - 1 / 2"
  shows "round_half_even q < k"
proof -
  from assms have "q < of_int k" by simp
  then have f: "\<lfloor>q\<rfloor> < k" by (simp add: floor_less_iff)
  show ?thesis
  proof (cases "\<lfloor>q\<rfloor> = k - 1")
    case True
    with assms have "q - of_int \<lfloor>q\<rfloor> < 1 / 2" by simp
    then have "round_half_even q = \<lfloor>q\<rfloor>" by (simp add: round_half_even_def Let_def)
    with f show ?thesis by simp
  next
    case False
    with f have "\<lfloor>q\<rfloor> + 1 < k" by simp
    with round_half_even_cases [of q] show ?thesis by auto
  qed
qed

lemma round_half_even_above:
  assumes "of_int k - 1 / 2 < q"
  shows "k \<le> round_half_even q"
proof (cases "of_int k \<le> q")
  case True
  then show ?thesis by (rule round_half_even_ge)
next
  case False
  then have "q < of_int k" by simp
  then have f: "\<lfloor>q\<rfloor> < k" by (simp add: floor_less_iff)
  from assms have "of_int (k - 1) \<le> q" by simp
  then have "k - 1 \<le> \<lfloor>q\<rfloor>" by (simp only: le_floor_iff)
  with f have e: "\<lfloor>q\<rfloor> = k - 1" by simp
  with assms have "1 / 2 < q - of_int \<lfloor>q\<rfloor>" by simp
  then have "round_half_even q = \<lfloor>q\<rfloor> + 1" by (simp add: round_half_even_def Let_def)
  with e show ?thesis by simp
qed

lemma round_half_even_tie:
  assumes "q = of_int k - 1 / 2" and "even k"
  shows "round_half_even q = k"
proof -
  have "of_int (k - 1) \<le> q" "q < of_int (k - 1) + 1" using assms(1) by simp_all
  then have e: "\<lfloor>q\<rfloor> = k - 1" by (simp only: floor_unique)
  with assms(1) have d: "q - of_int \<lfloor>q\<rfloor> = 1 / 2" by simp
  from e assms(2) have "odd \<lfloor>q\<rfloor>" by simp
  with d e show ?thesis by (simp add: round_half_even_def Let_def)
qed

lemma round_half_even_less_iff:
  assumes "even k"
  shows "round_half_even q < k \<longleftrightarrow> q < of_int k - 1 / 2"
proof
  assume l: "round_half_even q < k"
  show "q < of_int k - 1 / 2"
  proof (rule ccontr)
    assume "\<not> q < of_int k - 1 / 2"
    then consider "q = of_int k - 1 / 2" | "of_int k - 1 / 2 < q" by linarith
    then show False
    proof cases
      case 1
      from round_half_even_tie [OF 1 assms] l show False by simp
    next
      case 2
      from round_half_even_above [OF 2] l show False by simp
    qed
  qed
next
  assume "q < of_int k - 1 / 2"
  then show "round_half_even q < k" by (rule round_half_even_below)
qed

lemma round_half_even_minus: "round_half_even (- q) = - round_half_even q"
proof (cases "q = of_int \<lfloor>q\<rfloor>")
  case True
  then obtain k where k: "q = of_int k" ..
  have "round_half_even (of_int k) = k" "round_half_even (of_int (- k)) = - k"
    by (simp_all add: round_half_even_def Let_def)
  with k show ?thesis by simp
next
  case False
  then have c: "\<lceil>q\<rceil> = \<lfloor>q\<rfloor> + 1" by (simp add: ceiling_altdef)
  have f: "\<lfloor>- q\<rfloor> = - \<lfloor>q\<rfloor> - 1" using c by (simp add: floor_minus)
  define d where "d = q - of_int \<lfloor>q\<rfloor>"
  have d': "- q - of_int \<lfloor>- q\<rfloor> = 1 - d" by (simp add: f d_def)
  have ev: "even \<lfloor>- q\<rfloor> \<longleftrightarrow> odd \<lfloor>q\<rfloor>" by (simp add: f)
  consider "d < 1 / 2" | "1 / 2 < d" | "d = 1 / 2" by linarith
  then show ?thesis
  proof cases
    case 1
    then have "round_half_even q = \<lfloor>q\<rfloor>" by (simp add: round_half_even_def Let_def d_def)
    moreover from 1 have "round_half_even (- q) = \<lfloor>- q\<rfloor> + 1"
      unfolding round_half_even_def Let_def d' by simp
    ultimately show ?thesis by (simp add: f)
  next
    case 2
    then have "round_half_even q = \<lfloor>q\<rfloor> + 1" by (simp add: round_half_even_def Let_def d_def)
    moreover from 2 have "round_half_even (- q) = \<lfloor>- q\<rfloor>"
      unfolding round_half_even_def Let_def d' by simp
    ultimately show ?thesis by (simp add: f)
  next
    case 3
    then have a: "round_half_even q = (if even \<lfloor>q\<rfloor> then \<lfloor>q\<rfloor> else \<lfloor>q\<rfloor> + 1)"
      by (simp add: round_half_even_def Let_def d_def)
    from 3 have "round_half_even (- q) = (if even \<lfloor>- q\<rfloor> then \<lfloor>- q\<rfloor> else \<lfloor>- q\<rfloor> + 1)"
      unfolding round_half_even_def Let_def d' by simp
    with a ev show ?thesis by (simp add: f)
  qed
qed

lemma round_half_even_mono:
  assumes "q \<le> q'"
  shows "round_half_even q \<le> round_half_even q'"
proof (cases "\<lfloor>q\<rfloor> = \<lfloor>q'\<rfloor>")
  case True
  from assms have "q - of_int \<lfloor>q'\<rfloor> \<le> q' - of_int \<lfloor>q'\<rfloor>" by simp
  with True show ?thesis by (simp add: round_half_even_def Let_def)
next
  case False
  from assms have "\<lfloor>q\<rfloor> \<le> \<lfloor>q'\<rfloor>" by (rule floor_mono)
  with False have "\<lfloor>q\<rfloor> + 1 \<le> \<lfloor>q'\<rfloor>" by simp
  with round_half_even_cases [of q] round_half_even_cases [of q'] show ?thesis by auto
qed

lemma round64_minus: "round64 (- r) = negate (round64 r)"
proof (cases "r = 0")
  case True
  then show ?thesis by (simp add: round64_def)
next
  case False
  define u where "u = (2 :: real) powr of_int (max \<lfloor>log 2 \<bar>r\<bar>\<rfloor> (- 1022) - 52)"
  define v where "v = of_int (round_half_even (r / u)) * u"
  have m: "of_int (round_half_even (- r / u)) * u = - v"
    using round_half_even_minus [of "r / u"] by (simp add: v_def)
  have a: "round64 r =
      (if 2 ^ 1024 \<le> \<bar>v\<bar> then (if 0 < r then Infinity else Minus_Infinity) else Finite v)"
    using False by (simp add: round64_def Let_def u_def v_def)
  have b: "round64 (- r) =
      (if 2 ^ 1024 \<le> \<bar>- v\<bar> then (if 0 < - r then Infinity else Minus_Infinity)
       else Finite (- v))"
    using False m by (simp add: round64_def Let_def u_def)
  from False a b show ?thesis by auto
qed

lemma round64_positive:
  assumes "0 < a"
  defines "e \<equiv> max \<lfloor>log 2 a\<rfloor> (- 1022)"
  defines "u \<equiv> (2 :: real) powr of_int (e - 52)"
  defines "v \<equiv> of_int (round_half_even (a / u)) * u"
  shows "round64 a = (if 2 ^ 1024 \<le> v then Infinity else Finite v)"
    and "0 \<le> v" and "0 < u"
    and "2 powr of_int \<lfloor>log 2 a\<rfloor> \<le> a" and "a < 2 powr (of_int \<lfloor>log 2 a\<rfloor> + 1)"
proof -
  show u: "0 < u" by (simp add: u_def)
  from assms(1) u have "of_int 0 \<le> a / u" by simp
  then have "0 \<le> round_half_even (a / u)" by (rule round_half_even_ge)
  with u show v: "0 \<le> v" by (simp add: v_def)
  then have "\<bar>v\<bar> = v" by simp
  with assms(1) show "round64 a = (if 2 ^ 1024 \<le> v then Infinity else Finite v)"
    by (simp add: round64_def Let_def e_def u_def v_def)
  from assms(1) have "\<lfloor>log 2 a\<rfloor> = \<lfloor>log 2 a\<rfloor> \<longleftrightarrow>
      2 powr of_int \<lfloor>log 2 a\<rfloor> \<le> a \<and> a < 2 powr of_int (\<lfloor>log 2 a\<rfloor> + 1)"
    by (intro floor_log_eq_powr_iff) simp_all
  then show "2 powr of_int \<lfloor>log 2 a\<rfloor> \<le> a" "a < 2 powr (of_int \<lfloor>log 2 a\<rfloor> + 1)"
    by simp_all
qed

lemma two_powr_less: "(2 :: real) powr x < 2 powr y \<Longrightarrow> x < y"
  by simp

lemma round64_bounds:
  assumes "0 < a"
  defines "e \<equiv> max \<lfloor>log 2 a\<rfloor> (- 1022)"
  defines "u \<equiv> (2 :: real) powr of_int (e - 52)"
  defines "v \<equiv> of_int (round_half_even (a / u)) * u"
  shows "v \<le> 2 powr (of_int e + 1)"
    and "- 1022 \<le> \<lfloor>log 2 a\<rfloor> \<Longrightarrow> 2 powr of_int e \<le> v"
proof -
  note r = round64_positive [OF assms(1), folded e_def, folded u_def, folded v_def]
  have ee: "\<lfloor>log 2 a\<rfloor> \<le> e" by (simp add: e_def)
  have "a < 2 powr (of_int \<lfloor>log 2 a\<rfloor> + 1)" by (rule r(5))
  also have "\<dots> \<le> 2 powr (of_int e + 1)" using ee by simp
  finally have "a / u < 2 powr (of_int e + 1) / u"
    using r(3) by (simp add: divide_strict_right_mono)
  also have "2 powr (of_int e + 1) / u = 2 powr 53"
    by (simp add: u_def powr_diff [symmetric])
  finally have "a / u \<le> of_int (2 ^ 53)" by simp
  then have "round_half_even (a / u) \<le> 2 ^ 53" by (rule round_half_even_le)
  then have "of_int (round_half_even (a / u)) \<le> (2 ^ 53 :: real)"
    by (metis of_int_le_iff of_int_numeral of_int_power)
  with r(3) have "v \<le> 2 ^ 53 * u" by (simp add: v_def)
  also have "2 ^ 53 * u = 2 powr (of_int e + 1)"
  proof -
    have "(2 :: real) ^ 53 * u = 2 powr 53 * 2 powr (of_int e - 52)" by (simp add: u_def)
    also have "\<dots> = 2 powr (53 + (of_int e - 52))" by (simp only: powr_add)
    also have "53 + (of_int e - 52) = (of_int e + 1 :: real)" by simp
    finally show ?thesis .
  qed
  finally show "v \<le> 2 powr (of_int e + 1)" .
next
  assume "- 1022 \<le> \<lfloor>log 2 a\<rfloor>"
  then have ee: "e = \<lfloor>log 2 a\<rfloor>" by (simp add: e_def)
  note r = round64_positive [OF assms(1), folded e_def, folded u_def, folded v_def]
  have "2 powr of_int e / u = 2 powr 52" by (simp add: u_def powr_diff [symmetric])
  moreover have "2 powr of_int e / u \<le> a / u"
    using r(4) r(3) ee by (simp add: divide_right_mono)
  ultimately have "of_int (2 ^ 52) \<le> a / u" by simp
  then have "2 ^ 52 \<le> round_half_even (a / u)" by (rule round_half_even_ge)
  then have "(2 ^ 52 :: real) \<le> of_int (round_half_even (a / u))"
    by (metis of_int_le_iff of_int_numeral of_int_power)
  with r(3) have "2 ^ 52 * u \<le> v" by (simp add: v_def)
  moreover have "2 ^ 52 * u = 2 powr of_int e"
  proof -
    have "(2 :: real) ^ 52 * u = 2 powr 52 * 2 powr (of_int e - 52)" by (simp add: u_def)
    also have "\<dots> = 2 powr (52 + (of_int e - 52))" by (simp only: powr_add)
    also have "52 + (of_int e - 52) = (of_int e :: real)" by simp
    finally show ?thesis .
  qed
  ultimately show "2 powr of_int e \<le> v" by simp
qed

lemma round64_small:
  assumes "0 < a" and "a < 128"
  shows "\<exists>v. round64 a = Finite v \<and> 0 \<le> v \<and> v \<le> 128"
proof -
  define e where "e = max \<lfloor>log 2 a\<rfloor> (- 1022)"
  define u where "u = (2 :: real) powr of_int (e - 52)"
  define v where "v = of_int (round_half_even (a / u)) * u"
  note r = round64_positive [OF assms(1), folded e_def, folded u_def, folded v_def]
  note b = round64_bounds(1) [OF assms(1), folded e_def, folded u_def, folded v_def]
  from r(4) assms(2) have "2 powr of_int \<lfloor>log 2 a\<rfloor> < (128 :: real)" by simp
  also have "(128 :: real) = 2 powr 7" by simp
  finally have "of_int \<lfloor>log 2 a\<rfloor> < (7 :: real)" by (rule two_powr_less)
  then have "\<lfloor>log 2 a\<rfloor> < 7" by linarith
  then have "e \<le> 6" by (simp add: e_def)
  then have "(of_int e + 1 :: real) \<le> 7" by linarith
  then have "(2 :: real) powr (of_int e + 1) \<le> 2 powr 7" by (rule powr_mono) simp
  also have "(2 :: real) powr 7 = 128" by simp
  finally have v128: "v \<le> 128" using b by linarith
  then have "\<not> 2 ^ 1024 \<le> v" by simp
  with r(1) have "round64 a = Finite v" by simp
  with r(2) v128 show ?thesis by blast
qed

lemma round64_large:
  assumes "256 \<le> a"
  shows "round64 a = Infinity \<or> (\<exists>v. round64 a = Finite v \<and> 256 \<le> v)"
proof -
  from assms have pos: "0 < a" by simp
  define e where "e = max \<lfloor>log 2 a\<rfloor> (- 1022)"
  define u where "u = (2 :: real) powr of_int (e - 52)"
  define v where "v = of_int (round_half_even (a / u)) * u"
  note r = round64_positive [OF pos, folded e_def, folded u_def, folded v_def]
  note b = round64_bounds(2) [OF pos, folded e_def, folded u_def, folded v_def]
  have "(2 :: real) powr 8 = 256" by simp
  also note assms
  also note r(5)
  finally have "(8 :: real) < of_int \<lfloor>log 2 a\<rfloor> + 1" by (rule two_powr_less)
  then have e8: "8 \<le> \<lfloor>log 2 a\<rfloor>" by linarith
  then have "- 1022 \<le> \<lfloor>log 2 a\<rfloor>" by linarith
  from b [OF this] have "2 powr of_int e \<le> v" .
  moreover from e8 have "(8 :: real) \<le> of_int e" unfolding e_def by linarith
  then have "(2 :: real) powr 8 \<le> 2 powr of_int e" by (rule powr_mono) simp
  moreover have "(2 :: real) powr 8 = 256" by simp
  ultimately have "256 \<le> v" by linarith
  with r(1) show ?thesis by auto
qed

lemma round64_middle:
  assumes "128 \<le> a" and "a < 256"
  shows "round64 a = Finite (of_int (round_half_even (a * 2 ^ 45)) / 2 ^ 45)"
    and "round_half_even (a * 2 ^ 45) \<le> 2 ^ 53"
proof -
  from assms have pos: "0 < a" by simp
  define m where "m = round_half_even (a * 2 ^ 45)"
  define v where "v = (of_int m / 2 ^ 45 :: real)"
  have "\<lfloor>log 2 a\<rfloor> = 7" using assms pos by (intro floor_log2) simp_all
  then have e: "max \<lfloor>log 2 a\<rfloor> (- 1022) = 7" by simp
  have u: "2 powr of_int (7 - 52) = (1 / 2 ^ 45 :: real)" by (simp add: powr_neg_numeral)
  have "a * 2 ^ 45 \<le> of_int (2 ^ 53)" using assms(2) by simp
  then show "round_half_even (a * 2 ^ 45) \<le> 2 ^ 53" by (rule round_half_even_le)
  then have "of_int m \<le> (2 ^ 53 :: real)"
    unfolding m_def by (metis of_int_le_iff of_int_numeral of_int_power)
  moreover have "of_int 0 \<le> a * 2 ^ 45" using pos by simp
  then have "0 \<le> m" unfolding m_def by (rule round_half_even_ge)
  ultimately have "0 \<le> v" "v \<le> 2 ^ 53 / 2 ^ 45"
    by (simp_all add: v_def divide_right_mono)
  then have nov: "\<not> 2 ^ 1024 \<le> \<bar>v\<bar>" by simp
  have eq1: "a / (1 / 2 ^ 45) = a * 2 ^ 45" by simp
  have eq2: "of_int (round_half_even (a * 2 ^ 45)) * (1 / 2 ^ 45) = v"
    by (simp add: v_def m_def)
  have ab: "\<bar>a\<bar> = a" using pos by simp
  have "round64 a = Finite v"
    unfolding round64_def Let_def ab e u eq1 eq2 using pos nov by simp
  then show "round64 a = Finite (of_int (round_half_even (a * 2 ^ 45)) / 2 ^ 45)"
    by (simp only: v_def m_def)
qed

lemma round64_sign:
  "0 \<le> a \<Longrightarrow> less_eq_number (Finite 0) (round64 a)"
  "a \<le> 0 \<Longrightarrow> less_eq_number (round64 a) (Finite 0)"
proof -
  have p: "less_eq_number (Finite 0) (round64 b)" if "0 \<le> b" for b
  proof (cases "b = 0")
    case True
    then show ?thesis by (simp add: round64_def less_eq_number_def greater_eq_number_def)
  next
    case False
    with that have "0 < b" by simp
    from round64_positive(1,2) [OF this] show ?thesis
      by (simp add: less_eq_number_def greater_eq_number_def)
  qed
  show "0 \<le> a \<Longrightarrow> less_eq_number (Finite 0) (round64 a)" by (rule p)
  assume "a \<le> 0"
  then have "0 \<le> - a" by simp
  from p [OF this] have "less_eq_number (Finite 0) (round64 (- a))" .
  moreover have "round64 a = negate (round64 (- a))" using round64_minus [of "- a"] by simp
  ultimately show "less_eq_number (round64 a) (Finite 0)"
    by (cases "round64 (- a)") (simp_all add: less_eq_number_def greater_eq_number_def)
qed

lemma less_eq_number_trans:
  "less_eq_number a b \<Longrightarrow> less_eq_number b c \<Longrightarrow> less_eq_number a c"
  by (cases a; cases b; cases c) (simp_all add: less_eq_number_def greater_eq_number_def)

lemma less_eq_number_negate:
  "less_eq_number a b \<Longrightarrow> less_eq_number (negate b) (negate a)"
  by (cases a; cases b) (simp_all add: less_eq_number_def greater_eq_number_def)

lemma less_eq_number_NaN: "less_eq_number a b \<Longrightarrow> a \<noteq> NaN \<and> b \<noteq> NaN"
  by (simp add: less_eq_number_def greater_eq_number_def)

lemma round64_mono_positive:
  assumes "0 < r" and "r \<le> s"
  shows "less_eq_number (round64 r) (round64 s)"
proof -
  from assms have pos: "0 < s" by simp
  define er where "er = max \<lfloor>log 2 r\<rfloor> (- 1022)"
  define ur where "ur = (2 :: real) powr of_int (er - 52)"
  define vr where "vr = of_int (round_half_even (r / ur)) * ur"
  define es where "es = max \<lfloor>log 2 s\<rfloor> (- 1022)"
  define us where "us = (2 :: real) powr of_int (es - 52)"
  define vs where "vs = of_int (round_half_even (s / us)) * us"
  note a = round64_positive [OF assms(1), folded er_def, folded ur_def, folded vr_def]
  note b = round64_positive [OF pos, folded es_def, folded us_def, folded vs_def]
  note c = round64_bounds [OF assms(1), folded er_def, folded ur_def, folded vr_def]
  note d = round64_bounds [OF pos, folded es_def, folded us_def, folded vs_def]
  from assms have "log 2 r \<le> log 2 s" by simp
  then have "\<lfloor>log 2 r\<rfloor> \<le> \<lfloor>log 2 s\<rfloor>" by (rule floor_mono)
  then have le: "er \<le> es" by (simp add: er_def es_def)
  have "vr \<le> vs"
  proof (cases "er = es")
    case True
    then have u: "ur = us" by (simp add: ur_def us_def)
    from assms(2) a(3) have "r / ur \<le> s / ur" by (simp add: divide_right_mono)
    then have "round_half_even (r / ur) \<le> round_half_even (s / ur)"
      by (rule round_half_even_mono)
    then have "(of_int (round_half_even (r / ur)) :: real) \<le> of_int (round_half_even (s / ur))"
      by (simp only: of_int_le_iff)
    with a(3) show ?thesis unfolding vr_def vs_def u [symmetric]
      by (simp add: mult_right_mono)
  next
    case False
    with le have lt: "er + 1 \<le> es" by simp
    then have "- 1022 < es" by (simp add: er_def)
    then have "- 1022 \<le> \<lfloor>log 2 s\<rfloor>" unfolding es_def by linarith
    from d(2) [OF this] have "2 powr of_int es \<le> vs" .
    moreover from lt have "(of_int er + 1 :: real) \<le> of_int es" by linarith
    then have "(2 :: real) powr (of_int er + 1) \<le> 2 powr of_int es"
      by (rule powr_mono) simp
    ultimately show ?thesis using c(1) by linarith
  qed
  with a(1) b(1) show ?thesis
    by (simp add: less_eq_number_def greater_eq_number_def)
qed

lemma round64_mono:
  assumes "r \<le> s"
  shows "less_eq_number (round64 r) (round64 s)"
proof -
  consider "0 < r" | "r \<le> 0" "0 \<le> s" | "s < 0" by linarith
  then show ?thesis
  proof cases
    case 1
    from this assms show ?thesis by (rule round64_mono_positive)
  next
    case 2
    from round64_sign(2) [OF 2(1)] round64_sign(1) [OF 2(2)] show ?thesis
      by (rule less_eq_number_trans)
  next
    case 3
    with assms have "0 < - s" "- s \<le> - r" by simp_all
    then have "less_eq_number (round64 (- s)) (round64 (- r))" by (rule round64_mono_positive)
    then have "less_eq_number (negate (round64 (- r))) (negate (round64 (- s)))"
      by (rule less_eq_number_negate)
    then show ?thesis by (simp add: round64_minus [symmetric])
  qed
qed

lemma round64_normal:
  fixes r :: real
  assumes "r \<noteq> 0" and "2 powr of_int e \<le> \<bar>r\<bar>" and "\<bar>r\<bar> < 2 powr of_int (e + 1)"
    and "- 1022 \<le> e"
    and "round_half_even (r / 2 powr of_int (e - 52)) = n"
    and "\<bar>of_int n * 2 powr of_int (e - 52)\<bar> < (2 :: real) ^ 1024"
  shows "round64 r = Finite (of_int n * 2 powr of_int (e - 52))"
proof -
  have "0 < \<bar>r\<bar>" using assms(1) by simp
  from floor_log2 [OF this assms(2) assms(3)] have "\<lfloor>log 2 \<bar>r\<bar>\<rfloor> = e" .
  moreover have "max e (- 1022) = e" using assms(4) by simp
  ultimately show ?thesis
    using assms(1) assms(5) assms(6) unfolding round64_def Let_def by simp
qed

text \<open>
  The binary64 values of the numbers used below: \<open>0.1\<close>, \<open>200.1\<close> and \<open>0.001\<close> are not
  binary64 values and are rounded when the literal is read.
\<close>

lemma round64_tenth: "round64 (1 / 10) = Finite (3602879701896397 / 2 ^ 55)"
proof -
  have "round64 (1 / 10) = Finite (of_int 7205759403792794 * 2 powr of_int (- 4 - 52))"
  proof (rule round64_normal)
    show "(1 / 10 :: real) \<noteq> 0" by simp
    show "2 powr of_int (- 4) \<le> \<bar>1 / 10 :: real\<bar>" by (simp add: powr_neg_numeral)
    show "\<bar>1 / 10 :: real\<bar> < 2 powr of_int (- 4 + 1)" by (simp add: powr_neg_numeral)
    show "- 1022 \<le> (- 4 :: int)" by simp
    show "round_half_even (1 / 10 / 2 powr of_int (- 4 - 52)) = 7205759403792794"
      by (simp add: powr_neg_numeral round_half_even_def Let_def)
    show "\<bar>of_int 7205759403792794 * 2 powr of_int (- 4 - 52)\<bar> < (2 :: real) ^ 1024"
      by (simp add: powr_neg_numeral)
  qed
  then show ?thesis by (simp add: powr_neg_numeral)
qed

lemma round64_200_1: "round64 (2001 / 10) = Finite (7040392854975283 / 2 ^ 45)"
proof -
  have "(128 :: real) \<le> 2001 / 10" "(2001 / 10 :: real) < 256" by simp_all
  from round64_middle(1) [OF this]
  show ?thesis by (simp add: round_half_even_def Let_def)
qed

lemma round64_thousandth: "round64 (1 / 1000) = Finite (1152921504606847 / 2 ^ 60)"
proof -
  have "round64 (1 / 1000) = Finite (of_int 4611686018427388 * 2 powr of_int (- 10 - 52))"
  proof (rule round64_normal)
    show "(1 / 1000 :: real) \<noteq> 0" by simp
    show "2 powr of_int (- 10) \<le> \<bar>1 / 1000 :: real\<bar>" by (simp add: powr_neg_numeral)
    show "\<bar>1 / 1000 :: real\<bar> < 2 powr of_int (- 10 + 1)" by (simp add: powr_neg_numeral)
    show "- 1022 \<le> (- 10 :: int)" by simp
    show "round_half_even (1 / 1000 / 2 powr of_int (- 10 - 52)) = 4611686018427388"
      by (simp add: powr_neg_numeral round_half_even_def Let_def)
    show "\<bar>of_int 4611686018427388 * 2 powr of_int (- 10 - 52)\<bar> < (2 :: real) ^ 1024"
      by (simp add: powr_neg_numeral)
  qed
  then show ?thesis by (simp add: powr_neg_numeral)
qed

lemma round64_step: "round64 (500 * (1152921504606847 / 2 ^ 60)) = Finite (1 / 2)"
proof -
  have "round64 (500 * (1152921504606847 / 2 ^ 60))
      = Finite (of_int 4503599627370496 * 2 powr of_int (- 1 - 52))"
  proof (rule round64_normal)
    show "(500 * (1152921504606847 / 2 ^ 60) :: real) \<noteq> 0" by simp
    show "2 powr of_int (- 1) \<le> \<bar>500 * (1152921504606847 / 2 ^ 60) :: real\<bar>"
      by (simp add: powr_neg_numeral powr_minus_divide)
    show "\<bar>500 * (1152921504606847 / 2 ^ 60) :: real\<bar> < 2 powr of_int (- 1 + 1)"
      by (simp add: powr_neg_numeral)
    show "- 1022 \<le> (- 1 :: int)" by simp
    show "round_half_even (500 * (1152921504606847 / 2 ^ 60) / 2 powr of_int (- 1 - 52))
        = 4503599627370496"
      by (simp add: powr_neg_numeral round_half_even_def Let_def)
    show "\<bar>of_int 4503599627370496 * 2 powr of_int (- 1 - 52)\<bar> < (2 :: real) ^ 1024"
      by (simp add: powr_neg_numeral)
  qed
  then show ?thesis by (simp add: powr_neg_numeral)
qed

lemma round64_half: "round64 (1 / 2) = Finite (1 / 2)"
proof -
  have "round64 (1 / 2) = Finite (of_int 4503599627370496 * 2 powr of_int (- 1 - 52))"
  proof (rule round64_normal)
    show "(1 / 2 :: real) \<noteq> 0" by simp
    show "2 powr of_int (- 1) \<le> \<bar>1 / 2 :: real\<bar>" by (simp add: powr_minus_divide)
    show "\<bar>1 / 2 :: real\<bar> < 2 powr of_int (- 1 + 1)" by simp
    show "- 1022 \<le> (- 1 :: int)" by simp
    show "round_half_even (1 / 2 / 2 powr of_int (- 1 - 52)) = 4503599627370496"
      by (simp add: powr_neg_numeral round_half_even_def Let_def)
    show "\<bar>of_int 4503599627370496 * 2 powr of_int (- 1 - 52)\<bar> < (2 :: real) ^ 1024"
      by (simp add: powr_neg_numeral)
  qed
  then show ?thesis by (simp add: powr_neg_numeral)
qed

lemma round64_tiny: "round64 (- (1 / 2 ^ 57)) = Finite (- (1 / 2 ^ 57))"
proof -
  have "round64 (1 / 2 ^ 57) = Finite (of_int 4503599627370496 * 2 powr of_int (- 57 - 52))"
  proof (rule round64_normal)
    show "(1 / 2 ^ 57 :: real) \<noteq> 0" by simp
    show "2 powr of_int (- 57) \<le> \<bar>1 / 2 ^ 57 :: real\<bar>" by (simp add: powr_neg_numeral)
    show "\<bar>1 / 2 ^ 57 :: real\<bar> < 2 powr of_int (- 57 + 1)" by (simp add: powr_neg_numeral)
    show "- 1022 \<le> (- 57 :: int)" by simp
    show "round_half_even (1 / 2 ^ 57 / 2 powr of_int (- 57 - 52)) = 4503599627370496"
      by (simp add: powr_neg_numeral round_half_even_def Let_def)
    show "\<bar>of_int 4503599627370496 * 2 powr of_int (- 57 - 52)\<bar> < (2 :: real) ^ 1024"
      by (simp add: powr_neg_numeral)
  qed
  then have "round64 (1 / 2 ^ 57) = Finite (1 / 2 ^ 57)" by (simp add: powr_neg_numeral)
  then show ?thesis by (simp only: round64_minus negate.simps)
qed

lemma round64_50: "round64 50 = Finite 50"
proof -
  have "round64 50 = Finite (of_int 7036874417766400 * 2 powr of_int (5 - 52))"
  proof (rule round64_normal)
    show "(50 :: real) \<noteq> 0" by simp
    show "2 powr of_int 5 \<le> \<bar>50 :: real\<bar>" by simp
    show "\<bar>50 :: real\<bar> < 2 powr of_int (5 + 1)" by simp
    show "- 1022 \<le> (5 :: int)" by simp
    show "round_half_even (50 / 2 powr of_int (5 - 52)) = 7036874417766400"
      by (simp add: powr_neg_numeral round_half_even_def Let_def)
    show "\<bar>of_int 7036874417766400 * 2 powr of_int (5 - 52)\<bar> < (2 :: real) ^ 1024"
      by (simp add: powr_neg_numeral)
  qed
  then show ?thesis by (simp add: powr_neg_numeral)
qed

lemma round64_200: "round64 200 = Finite 200"
proof -
  have "(128 :: real) \<le> 200" "(200 :: real) < 256" by simp_all
  from round64_middle(1) [OF this] show ?thesis by (simp add: round_half_even_def Let_def)
qed

lemma round64_250: "round64 250 = Finite 250"
proof -
  have "(128 :: real) \<le> 250" "(250 :: real) < 256" by simp_all
  from round64_middle(1) [OF this] show ?thesis by (simp add: round_half_even_def Let_def)
qed

lemma round64_450: "round64 450 = Finite 450"
proof -
  have "round64 450 = Finite (of_int 7916483719987200 * 2 powr of_int (8 - 52))"
  proof (rule round64_normal)
    show "(450 :: real) \<noteq> 0" by simp
    show "2 powr of_int 8 \<le> \<bar>450 :: real\<bar>" by simp
    show "\<bar>450 :: real\<bar> < 2 powr of_int (8 + 1)" by simp
    show "- 1022 \<le> (8 :: int)" by simp
    show "round_half_even (450 / 2 powr of_int (8 - 52)) = 7916483719987200"
      by (simp add: powr_neg_numeral round_half_even_def Let_def)
    show "\<bar>of_int 7916483719987200 * 2 powr of_int (8 - 52)\<bar> < (2 :: real) ^ 1024"
      by (simp add: powr_neg_numeral)
  qed
  then show ?thesis by (simp add: powr_neg_numeral)
qed

section \<open>Movement and reach\<close>

lemma round64_nonneg_below_200:
  assumes "0 \<le> a"
  shows "less_number (Math_abs (round64 a)) (Finite 200) \<longleftrightarrow> a < 200 - 1 / 2 ^ 46"
proof -
  consider "a = 0" | "0 < a" "a < 128" | "128 \<le> a" "a < 256" | "256 \<le> a"
    using assms by linarith
  then show ?thesis
  proof cases
    case 1
    then show ?thesis by (simp add: round64_def)
  next
    case 2
    from round64_small [OF 2] obtain v where "round64 a = Finite v" "0 \<le> v" "v \<le> 128"
      by blast
    with 2(2) show ?thesis by simp
  next
    case 3
    define m where "m = round_half_even (a * 2 ^ 45)"
    from round64_middle(1) [OF 3] have r: "round64 a = Finite (of_int m / 2 ^ 45)"
      by (simp only: m_def)
    have "of_int 0 \<le> a * 2 ^ 45" using assms by simp
    then have m0: "0 \<le> m" unfolding m_def by (rule round_half_even_ge)
    have "even (7036874417766400 :: int)" by simp
    from round_half_even_less_iff [OF this, of "a * 2 ^ 45"]
    have l: "m < 7036874417766400 \<longleftrightarrow> a * 2 ^ 45 < 7036874417766400 - 1 / 2"
      by (simp add: m_def)
    have "less_number (Math_abs (round64 a)) (Finite 200)
        \<longleftrightarrow> (of_int m / 2 ^ 45 :: real) < 200"
      using r m0 by simp
    also have "\<dots> \<longleftrightarrow> (of_int m :: real) < of_int 7036874417766400"
      by (simp add: divide_less_eq)
    also have "\<dots> \<longleftrightarrow> m < 7036874417766400" by (simp only: of_int_less_iff)
    also note l
    also have "a * 2 ^ 45 < 7036874417766400 - 1 / 2 \<longleftrightarrow> a < 200 - 1 / 2 ^ 46"
      by (simp add: field_simps)
    finally show ?thesis .
  next
    case 4
    from round64_large [OF 4] have "\<not> less_number (Math_abs (round64 a)) (Finite 200)"
      by auto
    with 4 show ?thesis by simp
  qed
qed

lemma Math_abs_negate: "Math_abs (negate n) = Math_abs n"
  by (cases n) simp_all

lemma round64_below_200:
  "less_number (Math_abs (round64 d)) (Finite 200) \<longleftrightarrow> \<bar>d\<bar> < 200 - 1 / 2 ^ 46"
proof (cases "0 \<le> d")
  case True
  with round64_nonneg_below_200 [OF True] show ?thesis by simp
next
  case False
  then have n: "0 \<le> - d" and a: "\<bar>d\<bar> = - d" by simp_all
  have "round64 d = negate (round64 (- d))" using round64_minus [of "- d"] by simp
  then have "Math_abs (round64 d) = Math_abs (round64 (- d))" by (simp add: Math_abs_negate)
  with round64_nonneg_below_200 [OF n] a show ?thesis by simp
qed

lemma canReach_finite:
  "canReach p x y \<longleftrightarrow>
     (\<exists>a b. p_x p = Finite a \<and> x = Finite b \<and> \<bar>b - a\<bar> < 200 - 1 / 2 ^ 46)"
proof (cases "\<exists>a b. p_x p = Finite a \<and> x = Finite b")
  case True
  then obtain a b where ab: "p_x p = Finite a" "x = Finite b" by blast
  then have "canReach p x y \<longleftrightarrow> less_number (Math_abs (round64 (b - a))) (Finite 200)"
    by (simp add: canReach_def minus_number_def)
  with ab show ?thesis by (simp add: round64_below_200)
next
  case False
  then have "\<not> canReach p x y"
    by (cases x; cases "p_x p") (simp_all add: canReach_def minus_number_def)
  with False show ?thesis by blast
qed

text \<open>
  Claim C7, as the code has it. \<open>canReach(x, y)\<close> never reads \<open>y\<close>. It is true exactly
  when \<open>x\<close> and the position of the player are finite numbers whose exact distance is
  less than \<open>200 - 2 ^ (- 46)\<close>: the difference \<open>x - this.x\<close> is rounded to binary64
  before it is compared with 200, and every distance from \<open>200 - 2 ^ (- 46)\<close> on is
  rounded to 200 or more. When either number is NaN or an infinity the result is false.
\<close>

theorem canReach_horizontal:
  "(canReach p x y \<longleftrightarrow>
      (\<exists>a b. p_x p = Finite a \<and> x = Finite b \<and> \<bar>b - a\<bar> < 200 - 1 / 2 ^ 46))
   \<and> canReach p x y = canReach p x y'"
  using canReach_finite [of p x y] canReach_finite [of p x y'] by simp

theorem canReach_horizontal_witness:
  "canReach example_player (Finite 299) (Finite 0)
   \<and> \<not> canReach example_player (Finite 300) (Finite 300)
   \<and> \<not> canReach example_player (Finite (- 100)) (Finite 300)
   \<and> \<not> canReach example_player NaN (Finite 300)"
  using canReach_horizontal [of example_player "Finite 299" "Finite 0" "Finite 0"]
    canReach_horizontal [of example_player "Finite 300" "Finite 300" "Finite 300"]
    canReach_horizontal [of example_player "Finite (- 100)" "Finite 300" "Finite 300"]
    canReach_horizontal [of example_player NaN "Finite 300" "Finite 300"]
  by (simp add: example_player_def)

text \<open>
  Claim C7 fails as it is stated. The literals \<open>0.1\<close> and \<open>200.1\<close> denote the binary64
  values \<open>3602879701896397 / 2 ^ 55\<close> and \<open>7040392854975283 / 2 ^ 45\<close>, whose distance
  is less than 200; their difference computed in binary64 is 200, and a player at
  \<open>0.1\<close> cannot reach \<open>200.1\<close>.
\<close>

theorem canReach_rounds_up:
  "round64 (1 / 10) = Finite (3602879701896397 / 2 ^ 55)
   \<and> round64 (2001 / 10) = Finite (7040392854975283 / 2 ^ 45)
   \<and> \<bar>7040392854975283 / 2 ^ 45 - 3602879701896397 / 2 ^ 55\<bar> < (200 :: real)
   \<and> \<not> canReach (example_player\<lparr>p_x := Finite (3602879701896397 / 2 ^ 55)\<rparr>)
         (Finite (7040392854975283 / 2 ^ 45)) (Finite 0)"
proof -
  have "\<bar>7040392854975283 / 2 ^ 45 - 3602879701896397 / 2 ^ 55\<bar> < (200 :: real)" by simp
  moreover have "\<not> canReach (example_player\<lparr>p_x := Finite (3602879701896397 / 2 ^ 55)\<rparr>)
         (Finite (7040392854975283 / 2 ^ 45)) (Finite 0)"
    by (simp add: canReach_finite)
  ultimately show ?thesis using round64_tenth round64_200_1 by simp
qed

lemma tick_fields: "tick dt p = p\<lparr>p_x := p_x (tick dt p)\<rparr>"
  by (simp add: tick_def Let_def)

lemma step_nonneg:
  assumes "0 \<le> d"
  shows "less_eq_number (Finite 0) (times_number (Finite 500) (Finite d))"
  using assms by (simp add: round64_sign(1))

lemma step_back:
  assumes "round64 a = Finite a" and "less_eq_number (Finite 0) m"
  shows "less_eq_number (minus_number (Finite a) m) (Finite a)"
proof (cases m)
  case (Finite v)
  with assms(2) have "a + - v \<le> a"
    by (simp add: less_eq_number_def greater_eq_number_def)
  then have "less_eq_number (round64 (a + - v)) (round64 a)" by (rule round64_mono)
  with Finite assms(1) show ?thesis by (simp add: minus_number_def)
qed (use assms(2) in \<open>simp_all add: minus_number_def less_eq_number_def greater_eq_number_def\<close>)

lemma step_forward:
  assumes "round64 a = Finite a" and "less_eq_number (Finite 0) m"
  shows "less_eq_number (Finite a) (plus_number (Finite a) m)"
proof (cases m)
  case (Finite v)
  with assms(2) have "a \<le> a + v"
    by (simp add: less_eq_number_def greater_eq_number_def)
  then have "less_eq_number (round64 a) (round64 (a + v))" by (rule round64_mono)
  with Finite assms(1) show ?thesis by simp
qed (use assms(2) in \<open>simp_all add: less_eq_number_def greater_eq_number_def\<close>)

lemma Math_max_target:
  assumes "s \<noteq> NaN"
  shows "less_eq_number (Finite t) (Math_max s (Finite t))"
    and "less_eq_number s (Finite a) \<Longrightarrow> t \<le> a \<Longrightarrow>
         less_eq_number (Math_max s (Finite t)) (Finite a)"
    and "Math_max s (Finite t) = Finite t \<longleftrightarrow> less_eq_number s (Finite t)"
proof -
  show "less_eq_number (Finite t) (Math_max s (Finite t))"
    using assms
    by (cases s) (simp_all add: Math_max_def less_eq_number_def greater_eq_number_def)
  show "less_eq_number s (Finite a) \<Longrightarrow> t \<le> a \<Longrightarrow>
         less_eq_number (Math_max s (Finite t)) (Finite a)"
    using assms
    by (cases s) (simp_all add: Math_max_def less_eq_number_def greater_eq_number_def)
  show "Math_max s (Finite t) = Finite t \<longleftrightarrow> less_eq_number s (Finite t)"
    using assms
    by (cases s) (auto simp add: Math_max_def less_eq_number_def greater_eq_number_def)
qed

lemma Math_min_target:
  assumes "s \<noteq> NaN"
  shows "less_eq_number (Math_min s (Finite t)) (Finite t)"
    and "less_eq_number (Finite a) s \<Longrightarrow> a \<le> t \<Longrightarrow>
         less_eq_number (Finite a) (Math_min s (Finite t))"
    and "Math_min s (Finite t) = Finite t \<longleftrightarrow> less_eq_number (Finite t) s"
proof -
  show "less_eq_number (Math_min s (Finite t)) (Finite t)"
    using assms
    by (cases s) (simp_all add: Math_min_def less_eq_number_def greater_eq_number_def)
  show "less_eq_number (Finite a) s \<Longrightarrow> a \<le> t \<Longrightarrow>
         less_eq_number (Finite a) (Math_min s (Finite t))"
    using assms
    by (cases s) (simp_all add: Math_min_def less_eq_number_def greater_eq_number_def)
  show "Math_min s (Finite t) = Finite t \<longleftrightarrow> less_eq_number (Finite t) s"
    using assms
    by (cases s) (auto simp add: Math_min_def less_eq_number_def greater_eq_number_def)
qed

lemma tick_finite:
  assumes "p_x p = Finite a" and "round64 a = Finite a" and "targetX p = Finite t"
    and "0 \<le> d"
  defines "m \<equiv> times_number (Finite 500) (Finite d)"
  shows "t \<le> a \<Longrightarrow> less_eq_number (Finite t) (p_x (tick (Finite d) p))
                 \<and> less_eq_number (p_x (tick (Finite d) p)) (Finite a)"
    and "a \<le> t \<Longrightarrow> less_eq_number (Finite a) (p_x (tick (Finite d) p))
                 \<and> less_eq_number (p_x (tick (Finite d) p)) (Finite t)"
    and "p_x (tick (Finite d) p) = Finite t \<longleftrightarrow>
           a = t
         \<or> t < a \<and> less_eq_number (minus_number (Finite a) m) (Finite t)
         \<or> a < t \<and> less_eq_number (Finite t) (plus_number (Finite a) m)"
proof -
  have m0: "less_eq_number (Finite 0) m" unfolding m_def using assms(4) by (rule step_nonneg)
  from step_back [OF assms(2) m0]
  have b: "less_eq_number (minus_number (Finite a) m) (Finite a)" .
  then have bn: "minus_number (Finite a) m \<noteq> NaN" by (simp add: less_eq_number_NaN)
  from step_forward [OF assms(2) m0]
  have f: "less_eq_number (Finite a) (plus_number (Finite a) m)" .
  then have fn: "plus_number (Finite a) m \<noteq> NaN" by (simp add: less_eq_number_NaN)
  have same: "tick (Finite d) p = p" if "a = t"
    using that assms(1,3) by (simp add: tick_def Let_def greater_number_def)
  have down: "p_x (tick (Finite d) p) = Math_max (minus_number (Finite a) m) (Finite t)"
    if "t < a"
    using that assms(1,3) by (simp add: tick_def Let_def greater_number_def m_def)
  have up: "p_x (tick (Finite d) p) = Math_min (plus_number (Finite a) m) (Finite t)"
    if "a < t"
    using that assms(1,3) by (simp add: tick_def Let_def greater_number_def m_def)
  have refl: "less_eq_number (Finite a) (Finite a)"
    by (simp add: less_eq_number_def greater_eq_number_def)
  show "less_eq_number (Finite t) (p_x (tick (Finite d) p))
        \<and> less_eq_number (p_x (tick (Finite d) p)) (Finite a)" if "t \<le> a"
  proof (cases "a = t")
    case True
    with same assms(1) refl show ?thesis by simp
  next
    case False
    with that have l: "t < a" by simp
    from Math_max_target(1) [OF bn] Math_max_target(2) [OF bn b that] down [OF l]
    show ?thesis by simp
  qed
  show "less_eq_number (Finite a) (p_x (tick (Finite d) p))
        \<and> less_eq_number (p_x (tick (Finite d) p)) (Finite t)" if "a \<le> t"
  proof (cases "a = t")
    case True
    with same assms(1) refl show ?thesis by simp
  next
    case False
    with that have l: "a < t" by simp
    from Math_min_target(1) [OF fn] Math_min_target(2) [OF fn f that] up [OF l]
    show ?thesis by simp
  qed
  consider "a = t" | "t < a" | "a < t" by linarith
  then show "p_x (tick (Finite d) p) = Finite t \<longleftrightarrow>
           a = t
         \<or> t < a \<and> less_eq_number (minus_number (Finite a) m) (Finite t)
         \<or> a < t \<and> less_eq_number (Finite t) (plus_number (Finite a) m)"
  proof cases
    case 1
    with same assms(1) show ?thesis by simp
  next
    case 2
    with down [OF 2] Math_max_target(3) [OF bn, of t] show ?thesis by simp
  next
    case 3
    with up [OF 3] Math_min_target(3) [OF fn, of t] show ?thesis by simp
  qed
qed

text \<open>
  Claim C8, as the code has it. \<open>tick(dt)\<close> writes no field other than \<open>x\<close>. With \<open>m\<close>
  the binary64 product \<open>500 * dt\<close>: when \<open>x > targetX\<close> the new \<open>x\<close> is
  \<open>Math.max(x - m, targetX)\<close>, when \<open>x < targetX\<close> it is \<open>Math.min(x + m, targetX)\<close>,
  the difference and the sum rounded to binary64, and otherwise (the two are equal, or
  one of them is NaN) the player is unchanged. For a position \<open>x\<close> that is a finite
  binary64 value, a finite target and a finite \<open>dt \<ge> 0\<close>, the new \<open>x\<close> lies between the
  target and the old \<open>x\<close>: the player moves towards the target or stays, and never
  passes it; and the new \<open>x\<close> is the target exactly when \<open>x\<close> was the target already or
  the rounded \<open>x - m\<close> (for \<open>x < targetX\<close>: \<open>x + m\<close>) reaches or passes the target.
\<close>

theorem tick_moves_towards_target:
  "tick dt p = p\<lparr>p_x := p_x (tick dt p)\<rparr>
   \<and> (greater_number (p_x p) (targetX p) \<longrightarrow>
        p_x (tick dt p)
          = Math_max (minus_number (p_x p) (times_number (Finite 500) dt)) (targetX p))
   \<and> (less_number (p_x p) (targetX p) \<longrightarrow>
        p_x (tick dt p)
          = Math_min (plus_number (p_x p) (times_number (Finite 500) dt)) (targetX p))
   \<and> (\<not> greater_number (p_x p) (targetX p) \<and> \<not> less_number (p_x p) (targetX p) \<longrightarrow>
        tick dt p = p)
   \<and> (p_x p = Finite a \<and> round64 a = Finite a \<and> targetX p = Finite t \<and> dt = Finite d
        \<and> 0 \<le> d \<longrightarrow>
        (t \<le> a \<longrightarrow> less_eq_number (Finite t) (p_x (tick dt p))
                  \<and> less_eq_number (p_x (tick dt p)) (Finite a))
      \<and> (a \<le> t \<longrightarrow> less_eq_number (Finite a) (p_x (tick dt p))
                  \<and> less_eq_number (p_x (tick dt p)) (Finite t))
      \<and> (p_x (tick dt p) = Finite t \<longleftrightarrow>
            a = t
          \<or> t < a \<and> less_eq_number
                (minus_number (Finite a) (times_number (Finite 500) dt)) (Finite t)
          \<or> a < t \<and> less_eq_number (Finite t)
                (plus_number (Finite a) (times_number (Finite 500) dt))))"
proof -
  have 1: "tick dt p = p\<lparr>p_x := p_x (tick dt p)\<rparr>" by (rule tick_fields)
  have 2: "greater_number (p_x p) (targetX p) \<longrightarrow>
        p_x (tick dt p)
          = Math_max (minus_number (p_x p) (times_number (Finite 500) dt)) (targetX p)"
    by (simp add: tick_def Let_def)
  have "\<not> greater_number (p_x p) (targetX p)" if "less_number (p_x p) (targetX p)"
    using that by (cases "p_x p"; cases "targetX p") (simp_all add: greater_number_def)
  then have 3: "less_number (p_x p) (targetX p) \<longrightarrow>
        p_x (tick dt p)
          = Math_min (plus_number (p_x p) (times_number (Finite 500) dt)) (targetX p)"
    by (auto simp add: tick_def Let_def)
  have 4: "\<not> greater_number (p_x p) (targetX p) \<and> \<not> less_number (p_x p) (targetX p) \<longrightarrow>
        tick dt p = p"
    by (simp add: tick_def Let_def)
  have 5: "p_x p = Finite a \<and> round64 a = Finite a \<and> targetX p = Finite t \<and> dt = Finite d
        \<and> 0 \<le> d \<longrightarrow>
        (t \<le> a \<longrightarrow> less_eq_number (Finite t) (p_x (tick dt p))
                  \<and> less_eq_number (p_x (tick dt p)) (Finite a))
      \<and> (a \<le> t \<longrightarrow> less_eq_number (Finite a) (p_x (tick dt p))
                  \<and> less_eq_number (p_x (tick dt p)) (Finite t))
      \<and> (p_x (tick dt p) = Finite t \<longleftrightarrow>
            a = t
          \<or> t < a \<and> less_eq_number
                (minus_number (Finite a) (times_number (Finite 500) dt)) (Finite t)
          \<or> a < t \<and> less_eq_number (Finite t)
                (plus_number (Finite a) (times_number (Finite 500) dt)))"
  proof
    assume h: "p_x p = Finite a \<and> round64 a = Finite a \<and> targetX p = Finite t
        \<and> dt = Finite d \<and> 0 \<le> d"
    then have a: "p_x p = Finite a" "round64 a = Finite a" "targetX p = Finite t" "0 \<le> d"
      and dt: "dt = Finite d" by simp_all
    note r = tick_finite [OF a]
    have i: "t \<le> a \<longrightarrow> less_eq_number (Finite t) (p_x (tick dt p))
                  \<and> less_eq_number (p_x (tick dt p)) (Finite a)"
      unfolding dt using r(1) by (rule impI)
    have j: "a \<le> t \<longrightarrow> less_eq_number (Finite a) (p_x (tick dt p))
                  \<and> less_eq_number (p_x (tick dt p)) (Finite t)"
      unfolding dt using r(2) by (rule impI)
    have k: "p_x (tick dt p) = Finite t \<longleftrightarrow>
            a = t
          \<or> t < a \<and> less_eq_number
                (minus_number (Finite a) (times_number (Finite 500) dt)) (Finite t)
          \<or> a < t \<and> less_eq_number (Finite t)
                (plus_number (Finite a) (times_number (Finite 500) dt))"
      unfolding dt by (rule r(3))
    show "(t \<le> a \<longrightarrow> less_eq_number (Finite t) (p_x (tick dt p))
                  \<and> less_eq_number (p_x (tick dt p)) (Finite a))
      \<and> (a \<le> t \<longrightarrow> less_eq_number (Finite a) (p_x (tick dt p))
                  \<and> less_eq_number (p_x (tick dt p)) (Finite t))
      \<and> (p_x (tick dt p) = Finite t \<longleftrightarrow>
            a = t
          \<or> t < a \<and> less_eq_number
                (minus_number (Finite a) (times_number (Finite 500) dt)) (Finite t)
          \<or> a < t \<and> less_eq_number (Finite t)
                (plus_number (Finite a) (times_number (Finite 500) dt)))"
      by (rule conjI [OF i conjI [OF j k]])
  qed
  show ?thesis by (rule conjI [OF 1 conjI [OF 2 conjI [OF 3 conjI [OF 4 5]]]])
qed

theorem tick_moves_towards_target_witness:
  "round64 200 = Finite 200
   \<and> tick (Finite (1 / 2)) (example_player\<lparr>p_x := Finite 200, targetX := Finite 190\<rparr>)
       = example_player\<lparr>p_x := Finite 190, targetX := Finite 190\<rparr>
   \<and> tick (Finite (1 / 2)) (example_player\<lparr>p_x := Finite 200, targetX := Finite 1000\<rparr>)
       = example_player\<lparr>p_x := Finite 450, targetX := Finite 1000\<rparr>
   \<and> tick (Finite (1 / 2)) example_player = example_player"
proof -
  define down where "down = example_player\<lparr>p_x := Finite 200, targetX := Finite 190\<rparr>"
  define up where "up = example_player\<lparr>p_x := Finite 200, targetX := Finite 1000\<rparr>"
  have b: "round64 (- 50) = Finite (- 50)"
    using round64_minus [of 50] by (simp add: round64_50)
  note d = tick_moves_towards_target [of "Finite (1 / 2)" down 200 190 "1 / 2"]
  from d have "p_x (tick (Finite (1 / 2)) down) = Finite 190"
    by (simp add: down_def greater_number_def minus_number_def round64_250 b Math_max_def)
  with d [THEN conjunct1] have 1: "tick (Finite (1 / 2)) down = down\<lparr>p_x := Finite 190\<rparr>"
    by (simp only:)
  note u = tick_moves_towards_target [of "Finite (1 / 2)" up 200 1000 "1 / 2"]
  from u have "p_x (tick (Finite (1 / 2)) up) = Finite 450"
    by (simp add: up_def greater_number_def round64_250 round64_450 Math_min_def)
  with u [THEN conjunct1] have 2: "tick (Finite (1 / 2)) up = up\<lparr>p_x := Finite 450\<rparr>"
    by (simp only:)
  from tick_moves_towards_target [of "Finite (1 / 2)" example_player 100 100 "1 / 2"]
  have 3: "tick (Finite (1 / 2)) example_player = example_player"
    by (simp add: example_player_def greater_number_def)
  from 1 2 3 round64_200 show ?thesis by (simp add: down_def up_def)
qed

text \<open>
  Claim C8 fails as it is stated. Take \<open>x = 0.5\<close>, \<open>targetX = - 2 ^ (- 57)\<close> and
  \<open>dt = 0.001\<close>, the binary64 value \<open>1152921504606847 / 2 ^ 60\<close>. The distance to the
  target is at most \<open>500 * dt\<close>, but the product \<open>500 * dt\<close> computed in binary64 is
  \<open>0.5\<close> and \<open>x - 0.5\<close> is 0: the player stops on 0 and not on the target.
\<close>

theorem tick_misses_target:
  "round64 (1 / 2) = Finite (1 / 2)
   \<and> round64 (- (1 / 2 ^ 57)) = Finite (- (1 / 2 ^ 57))
   \<and> round64 (1 / 1000) = Finite (1152921504606847 / 2 ^ 60)
   \<and> \<bar>1 / 2 - (- (1 / 2 ^ 57))\<bar> \<le> (500 * (1152921504606847 / 2 ^ 60) :: real)
   \<and> tick (Finite (1152921504606847 / 2 ^ 60))
        (example_player\<lparr>p_x := Finite (1 / 2), targetX := Finite (- (1 / 2 ^ 57))\<rparr>)
       = example_player\<lparr>p_x := Finite 0, targetX := Finite (- (1 / 2 ^ 57))\<rparr>"
proof -
  define dt where "dt = (1152921504606847 / 2 ^ 60 :: real)"
  define t where "t = (- (1 / 2 ^ 57) :: real)"
  have m: "round64 (500 * dt) = Finite (1 / 2)"
    unfolding dt_def by (rule round64_step)
  have b: "round64 0 = Finite 0"
    by (simp add: round64_def)
  have t: "t < 1 / 2" "t < 0" by (simp_all add: t_def)
  have "tick (Finite dt) (example_player\<lparr>p_x := Finite (1 / 2), targetX := Finite t\<rparr>)
      = example_player\<lparr>p_x := Finite 0, targetX := Finite t\<rparr>"
    using t by (simp add: tick_def Let_def greater_number_def minus_number_def m b Math_max_def)
  moreover have "\<bar>1 / 2 - t\<bar> \<le> 500 * dt" by (simp add: t_def dt_def)
  ultimately show ?thesis
    using round64_half round64_tiny round64_thousandth unfolding dt_def t_def by simp
qed

section \<open>Taking and tossing\<close>

text \<open>
  Claim C10. When the player does not hold the object, \<open>indexOf\<close> is -1 and
  \<open>tossPuzzleObject\<close> runs \<open>splice(-1, 1)\<close>: a non-empty inventory loses its last
  entry (its length goes down by one), an empty inventory stays empty.
\<close>

theorem tossPuzzleObject_not_held:
  assumes "Some obj \<notin> set (heldPuzzleObjects p)"
  shows "indexOf (heldPuzzleObjects p) (Some obj) = - 1
    \<and> heldPuzzleObjects (tossPuzzleObject obj p) = butlast (heldPuzzleObjects p)
    \<and> (heldPuzzleObjects p \<noteq> [] \<longrightarrow>
          length (heldPuzzleObjects (tossPuzzleObject obj p)) + 1 = length (heldPuzzleObjects p))
    \<and> (heldPuzzleObjects p = [] \<longrightarrow> heldPuzzleObjects (tossPuzzleObject obj p) = [])"
proof -
  from assms have i: "indexOf (heldPuzzleObjects p) (Some obj) = - 1"
    by (simp add: indexOf_absent)
  then have h: "heldPuzzleObjects (tossPuzzleObject obj p) = butlast (heldPuzzleObjects p)"
    by (simp add: tossPuzzleObject_def array_splice_minus1)
  have l: "heldPuzzleObjects p \<noteq> [] \<longrightarrow>
      length (butlast (heldPuzzleObjects p)) + 1 = length (heldPuzzleObjects p)"
    by simp
  have e: "heldPuzzleObjects p = [] \<longrightarrow> butlast (heldPuzzleObjects p) = []"
    by simp
  from i l e show ?thesis unfolding h by blast
qed

theorem tossPuzzleObject_not_held_witness:
  "Some (Obj 3) \<notin> set (heldPuzzleObjects (example_player\<lparr>heldPuzzleObjects := [Some (Obj 0), Some (Obj 1)]\<rparr>))
   \<and> heldPuzzleObjects
        (tossPuzzleObject (Obj 3) (example_player\<lparr>heldPuzzleObjects := [Some (Obj 0), Some (Obj 1)]\<rparr>)) = [Some (Obj 0)]
   \<and> heldPuzzleObjects (tossPuzzleObject (Obj 3) (example_player\<lparr>heldPuzzleObjects := []\<rparr>)) = []"
proof -
  have a: "Some (Obj 3) \<notin> set (heldPuzzleObjects (example_player\<lparr>heldPuzzleObjects := [Some (Obj 0), Some (Obj 1)]\<rparr>))"
    by simp
  have b: "Some (Obj 3) \<notin> set (heldPuzzleObjects (example_player\<lparr>heldPuzzleObjects := []\<rparr>))"
    by simp
  note c = tossPuzzleObject_not_held [OF a, THEN conjunct2, THEN conjunct1]
  note d = tossPuzzleObject_not_held [OF b, THEN conjunct2, THEN conjunct1]
  have "heldPuzzleObjects
        (tossPuzzleObject (Obj 3) (example_player\<lparr>heldPuzzleObjects := [Some (Obj 0), Some (Obj 1)]\<rparr>)) = [Some (Obj 0)]"
    unfolding c by simp
  moreover have "heldPuzzleObjects (tossPuzzleObject (Obj 3) (example_player\<lparr>heldPuzzleObjects := []\<rparr>)) = []"
    unfolding d by simp
  ultimately show ?thesis using a by blast
qed

text \<open>
  Claim C5. \<open>takePuzzleObject\<close> of an object returns and has appended the object to the
  held puzzle objects, whatever the player already holds: the list is one longer.
\<close>

theorem takePuzzleObject_appends:
  "\<exists>p'. takePuzzleObject (Some obj) isInitializing p = Inr p'
     \<and> heldPuzzleObjects p' = heldPuzzleObjects p @ [Some obj]
     \<and> length (heldPuzzleObjects p') = length (heldPuzzleObjects p) + 1
     \<and> heldMaterials p' = heldMaterials p"
  by (simp add: takePuzzleObject_def Let_def)

theorem takePuzzleObject_appends_witness:
  "hasPuzzleObject example_player (Some (Obj 0))
   \<and> (\<exists>p'. takePuzzleObject (Some (Obj 0)) False example_player = Inr p'
         \<and> heldPuzzleObjects p' = [Some (Obj 0), Some (Obj 0)])"
  using takePuzzleObject_appends [of "Obj 0" False example_player]
  by (auto simp add: example_player_def hasPuzzleObject_def)

text \<open>
  Claim C4. \<open>takeMaterial\<close> of a material the player already holds returns with the
  held materials as they were; the player hears the negative cue and reads a message,
  and nothing is saved.
\<close>

theorem takeMaterial_already_held:
  assumes "hasMaterial p (Some mat)"
  shows "\<exists>p'. takeMaterial (Some mat) isInitializing p = Inr p'
     \<and> heldMaterials p' = heldMaterials p
     \<and> length (heldMaterials p') = length (heldMaterials p)
     \<and> heldPuzzleObjects p' = heldPuzzleObjects p
     \<and> effects p' = effects p @ [PlaySFX Bad_job_4,
          Toast (if greater_eq_number (Finite (real (length (heldMaterials p))))
                      (materialInventorySize p)
                 then Cant_hold_that_many else Already_got_one)]"
  using assms by (simp add: takeMaterial_def)

theorem takeMaterial_already_held_witness:
  "hasMaterial example_player (Some (Obj 10))
   \<and> (\<exists>p'. takeMaterial (Some (Obj 10)) False example_player = Inr p'
         \<and> heldMaterials p' = [Some (Obj 10)]
         \<and> effects p' = [PlaySFX Bad_job_4, Toast Already_got_one])"
  using takeMaterial_already_held [of example_player "Obj 10" False]
  by (auto simp add: example_player_def hasMaterial_def greater_eq_number_def)

lemma takeMaterial_twice:
  assumes "takeMaterial (Some mat) b p = Inr p1"
  shows "\<exists>p2. takeMaterial (Some mat) b' p1 = Inr p2 \<and> heldMaterials p2 = heldMaterials p1"
proof -
  have "greater_eq_number (Finite (real (length (heldMaterials p1)))) (materialInventorySize p1)
      \<or> hasMaterial p1 (Some mat)"
    using assms
    by (auto simp: takeMaterial_def Let_def hasMaterial_def indexOf_absent split: if_splits)
  then show ?thesis by (auto simp: takeMaterial_def)
qed

lemma greater_eq_length:
  "greater_eq_number (Finite (real l)) (Finite (of_int n)) \<longleftrightarrow> n \<le> int l"
proof -
  have "real l < of_int n \<longleftrightarrow> int l < n"
    by (metis of_int_less_iff of_int_of_nat_eq)
  then show ?thesis by (auto simp: greater_eq_number_def)
qed

lemma takeMaterial_returns:
  "\<exists>p'. takeMaterial (Some mat) b p = Inr p'
     \<and> materialInventorySize p' = materialInventorySize p
     \<and> (materialInventorySize p = Finite (of_int n) \<and> int (length (heldMaterials p)) \<le> n
          \<longrightarrow> int (length (heldMaterials p')) \<le> n)"
  by (auto simp add: takeMaterial_def Let_def greater_eq_length)

lemma takeMaterial_calls_bounded:
  assumes "materialInventorySize p = Finite (of_int n)"
    and "int (length (heldMaterials p)) \<le> n"
  shows "\<exists>p'. takeMaterial_calls calls p = Inr p'
            \<and> materialInventorySize p' = materialInventorySize p
            \<and> int (length (heldMaterials p')) \<le> n"
  using assms
proof (induction calls arbitrary: p)
  case Nil
  then show ?case by simp
next
  case (Cons c calls)
  obtain m b where c: "c = (m, b)" by (cases c)
  from takeMaterial_returns [of m b p n] Cons.prems obtain p1 where
    p1: "takeMaterial (Some m) b p = Inr p1"
      "materialInventorySize p1 = materialInventorySize p"
      "int (length (heldMaterials p1)) \<le> n"
    by blast
  from p1(2) Cons.prems(1) have "materialInventorySize p1 = Finite (of_int n)" by simp
  from Cons.IH [OF this p1(3)] p1(1,2) c show ?case by simp
qed

text \<open>
  Claim C3, as the code has it. When \<open>materialInventorySize\<close> is a whole number and the
  player holds at most that many materials, every sequence of \<open>takeMaterial\<close> calls
  returns and leaves at most that many materials held. For every player and every
  capacity, a call made while the number of held materials is \<open>materialInventorySize\<close>
  or more returns with the held materials as they were.
\<close>

theorem takeMaterial_capacity:
  "(materialInventorySize p = Finite (of_int n) \<and> int (length (heldMaterials p)) \<le> n \<longrightarrow>
      (\<exists>p'. takeMaterial_calls calls p = Inr p'
            \<and> materialInventorySize p' = materialInventorySize p
            \<and> int (length (heldMaterials p')) \<le> n))
    \<and> (greater_eq_number (Finite (real (length (heldMaterials p)))) (materialInventorySize p) \<longrightarrow>
         (\<exists>p'. takeMaterial mat isInitializing p = Inr p'
            \<and> heldMaterials p' = heldMaterials p))"
proof
  show "materialInventorySize p = Finite (of_int n) \<and> int (length (heldMaterials p)) \<le> n \<longrightarrow>
      (\<exists>p'. takeMaterial_calls calls p = Inr p'
            \<and> materialInventorySize p' = materialInventorySize p
            \<and> int (length (heldMaterials p')) \<le> n)"
    using takeMaterial_calls_bounded by blast
next
  show "greater_eq_number (Finite (real (length (heldMaterials p)))) (materialInventorySize p) \<longrightarrow>
         (\<exists>p'. takeMaterial mat isInitializing p = Inr p'
            \<and> heldMaterials p' = heldMaterials p)"
    by (simp add: takeMaterial_def)
qed

theorem takeMaterial_capacity_witness:
  "materialInventorySize example_player = Finite (of_int 2)
   \<and> int (length (heldMaterials example_player)) \<le> 2
   \<and> (\<exists>p'. takeMaterial_calls [(Obj 11, False), (Obj 12, False), (Obj 10, True)] example_player
            = Inr p'
         \<and> heldMaterials p' = [Some (Obj 10), Some (Obj 11)]
         \<and> greater_eq_number (Finite (real (length (heldMaterials p'))))
              (materialInventorySize p')
         \<and> (\<exists>p''. takeMaterial (Some (Obj 12)) False p' = Inr p''
               \<and> heldMaterials p'' = heldMaterials p'))"
proof -
  let ?calls = "[(Obj 11, False), (Obj 12, False), (Obj 10, True)]"
  have a: "materialInventorySize example_player = Finite (of_int 2)"
    "int (length (heldMaterials example_player)) \<le> 2"
    by (simp_all add: example_player_def)
  from takeMaterial_capacity [of example_player 2 ?calls, THEN conjunct1] a
  obtain p' where p': "takeMaterial_calls ?calls example_player = Inr p'"
    "materialInventorySize p' = materialInventorySize example_player"
    by blast
  from p'(1) have h: "heldMaterials p' = [Some (Obj 10), Some (Obj 11)]"
    by (auto simp add: example_player_def takeMaterial_def hasMaterial_def Let_def emit_def
        greater_eq_number_def)
  from h p'(2) have g: "greater_eq_number (Finite (real (length (heldMaterials p'))))
      (materialInventorySize p')"
    by (simp add: example_player_def greater_eq_number_def)
  from takeMaterial_capacity [of p' 2 ?calls "Some (Obj 12)" False, THEN conjunct2] g
  have "\<exists>p''. takeMaterial (Some (Obj 12)) False p' = Inr p''
      \<and> heldMaterials p'' = heldMaterials p'"
    by blast
  with a p'(1) h g show ?thesis by blast
qed

text \<open>
  Claim C3 fails as it is stated for every player. With the capacity 2.5 the
  constructor takes three saved materials, since 2 is still below 2.5: three is more
  than the capacity. And a player constructed with the capacity -1 holds no material,
  which is already more than -1.
\<close>

theorem takeMaterial_exceeds_capacity:
  "new_Player example_materials
     \<lparr>d_x = Finite 100, d_y = Finite 300, d_heldMaterials = [''wood'', ''stone'', ''charcoal''],
      d_heldPuzzleObjects = [], d_materialInventorySize = Some (Finite (5 / 2))\<rparr>
   = Inr \<lparr>p_x = Finite 100, p_y = Finite 300, p_z = Finite 1, targetX = Finite 100,
          materialInventorySize = Finite (5 / 2),
          heldMaterials = [Some (Obj 10), Some (Obj 11), Some (Obj 12)],
          heldPuzzleObjects = [],
          effects = [HotbarSetCapacity (Finite (5 / 2)), HotbarAddItem (Obj 10),
                     HotbarAddItem (Obj 11), HotbarAddItem (Obj 12)]\<rparr>
   \<and> less_number (Finite (5 / 2))
        (Finite (real (length [Some (Obj 10), Some (Obj 11), Some (Obj 12)])))
   \<and> new_Player example_materials
     \<lparr>d_x = Finite 100, d_y = Finite 300, d_heldMaterials = [],
      d_heldPuzzleObjects = [], d_materialInventorySize = Some (Finite (- 1))\<rparr>
   = Inr \<lparr>p_x = Finite 100, p_y = Finite 300, p_z = Finite 1, targetX = Finite 100,
          materialInventorySize = Finite (- 1), heldMaterials = [], heldPuzzleObjects = [],
          effects = [HotbarSetCapacity (Finite (- 1))]\<rparr>
   \<and> less_number (Finite (- 1)) (Finite (real (length ([] :: val list))))"
  by (simp add: new_Player_def lookup_def example_materials_def takeMaterial_def
      hasMaterial_def Let_def emit_def greater_eq_number_def)

section \<open>Registries and potions\<close>

lemma reverse_lookup_None [simp]: "reverse_lookup reg None = Inl (Error ''PuzzleObject not found.'')"
proof -
  have "List.find (\<lambda>(_, po). Some po = None) reg = None"
    by (simp add: find_None_iff)
  then show ?thesis by (simp add: reverse_lookup_def)
qed

lemma reverse_lookup_Inr:
  assumes "reverse_lookup reg v = Inr k"
  shows "\<exists>r. v = Some r \<and> (k, r) \<in> set reg"
proof -
  from assms obtain entry where f: "List.find (\<lambda>(_, po). Some po = v) reg = Some entry"
    and k: "k = fst entry"
    by (auto simp: reverse_lookup_def split: option.splits)
  from f have "entry \<in> set reg" "(\<lambda>(_, po). Some po = v) entry"
    by (auto simp: find_Some_iff dest: nth_mem)
  with k show ?thesis by (cases entry) auto
qed

lemma reverse_lookup_registered:
  "(\<exists>k. reverse_lookup reg v = Inr k) \<longleftrightarrow> registered reg v"
proof
  assume "\<exists>k. reverse_lookup reg v = Inr k"
  then obtain k where "reverse_lookup reg v = Inr k" ..
  from reverse_lookup_Inr [OF this] show "registered reg v"
    by (force simp: registered_def)
next
  assume "registered reg v"
  then obtain r k where v: "v = Some r" and m: "(k, r) \<in> set reg"
    by (auto simp: registered_def split: option.splits)
  then have "List.find (\<lambda>(_, po). Some po = v) reg \<noteq> None"
    by (auto simp: find_None_iff)
  then show "\<exists>k. reverse_lookup reg v = Inr k"
    by (auto simp: reverse_lookup_def)
qed


lemma lookup_reverse_lookup:
  assumes "distinct (map fst reg)" and "reverse_lookup reg v = Inr k"
  shows "lookup reg k = v"
proof -
  from reverse_lookup_Inr [OF assms(2)] obtain r where "v = Some r" "(k, r) \<in> set reg"
    by blast
  with assms(1) show ?thesis by (simp add: lookup_def)
qed

lemma find_type_none:
  assumes "\<forall>v\<in>set vs. \<exists>k. typeOf v = Inr k \<and> k \<noteq> T"
  shows "find_type typeOf T vs = Inr None"
  using assms by (induction vs) auto

lemma find_type_first:
  assumes "\<forall>v\<in>set vs. \<exists>k. typeOf v = Inr k"
    and "\<exists>v\<in>set vs. typeOf v = Inr T"
  shows "\<exists>i<length vs. typeOf (vs ! i) = Inr T \<and> (\<forall>j<i. typeOf (vs ! j) \<noteq> Inr T)
           \<and> find_type typeOf T vs = Inr (vs ! i)"
  using assms
proof (induction vs)
  case Nil
  then show ?case by simp
next
  case (Cons v vs)
  show ?case
  proof (cases "typeOf v = Inr T")
    case True
    then have "typeOf ((v # vs) ! 0) = Inr T \<and> (\<forall>j<0. typeOf ((v # vs) ! j) \<noteq> Inr T)
           \<and> find_type typeOf T (v # vs) = Inr ((v # vs) ! 0)"
      by simp
    then show ?thesis by blast
  next
    case False
    from Cons.prems(1) obtain k where k: "typeOf v = Inr k" by auto
    with False have kT: "k \<noteq> T" by simp
    from Cons.prems False have "\<forall>v\<in>set vs. \<exists>k. typeOf v = Inr k" "\<exists>v\<in>set vs. typeOf v = Inr T"
      by auto
    from Cons.IH [OF this] obtain i where i: "i < length vs" "typeOf (vs ! i) = Inr T"
      "\<forall>j<i. typeOf (vs ! j) \<noteq> Inr T" "find_type typeOf T vs = Inr (vs ! i)"
      by blast
    have "\<forall>j<Suc i. typeOf ((v # vs) ! j) \<noteq> Inr T"
    proof (intro allI impI)
      fix j assume "j < Suc i"
      with i(3) False show "typeOf ((v # vs) ! j) \<noteq> Inr T" by (cases j) auto
    qed
    with i k kT have "Suc i < length (v # vs) \<and> typeOf ((v # vs) ! Suc i) = Inr T
        \<and> (\<forall>j<Suc i. typeOf ((v # vs) ! j) \<noteq> Inr T)
        \<and> find_type typeOf T (v # vs) = Inr ((v # vs) ! Suc i)"
      by simp
    then show ?thesis by blast
  qed
qed


lemma find_type_held:
  assumes "\<forall>v\<in>set vs. registered reg v"
    and "\<exists>v\<in>set vs. reverse_lookup reg v = Inr T"
  shows "\<exists>i<length vs. reverse_lookup reg (vs ! i) = Inr T
           \<and> (\<forall>j<i. reverse_lookup reg (vs ! j) \<noteq> Inr T)
           \<and> find_type (reverse_lookup reg) T vs = Inr (vs ! i)
           \<and> vs ! i \<noteq> None
           \<and> indexOf vs (vs ! i) = int i"
proof -
  from assms(1) have "\<forall>v\<in>set vs. \<exists>k. reverse_lookup reg v = Inr k"
    by (simp add: reverse_lookup_registered)
  from find_type_first [OF this assms(2)] obtain i where i: "i < length vs"
    "reverse_lookup reg (vs ! i) = Inr T" "\<forall>j<i. reverse_lookup reg (vs ! j) \<noteq> Inr T"
    "find_type (reverse_lookup reg) T vs = Inr (vs ! i)"
    by blast
  from reverse_lookup_Inr [OF i(2)] have n: "vs ! i \<noteq> None" by auto
  from i(2,3) have "\<forall>j<i. vs ! j \<noteq> vs ! i" by auto
  with i(1) have "indexOf vs (vs ! i) = int i" by (simp add: indexOf_first)
  with i n show ?thesis by blast
qed

lemma find_type_not_held:
  assumes "\<forall>v\<in>set vs. registered reg v"
    and "\<forall>v\<in>set vs. reverse_lookup reg v \<noteq> Inr T"
  shows "find_type (reverse_lookup reg) T vs = Inr None"
proof (rule find_type_none)
  show "\<forall>v\<in>set vs. \<exists>k. reverse_lookup reg v = Inr k \<and> k \<noteq> T"
  proof
    fix v assume v: "v \<in> set vs"
    with assms(1) obtain k where "reverse_lookup reg v = Inr k"
      using reverse_lookup_registered by blast
    with assms(2) v show "\<exists>k. reverse_lookup reg v = Inr k \<and> k \<noteq> T" by auto
  qed
qed

lemma find_type_returns:
  assumes "\<forall>v\<in>set vs. registered reg v"
  shows "\<exists>r. find_type (reverse_lookup reg) T vs = Inr r"
proof (cases "\<exists>v\<in>set vs. reverse_lookup reg v = Inr T")
  case True
  from find_type_held [OF assms True] show ?thesis by blast
next
  case False
  then have "\<forall>v\<in>set vs. reverse_lookup reg v \<noteq> Inr T" by blast
  from find_type_not_held [OF assms this] show ?thesis by blast
qed

text \<open>
  Claim C1, as the code has it. Let every held material and every held puzzle object
  be a definition of its registry. If a held material has the type \<open>applyTo\<close>, \<open>applyPotion\<close> returns true
  and has replaced the first such material, in its slot, by the material registered
  under \<open>turnsInto\<close>, touching nothing else (so materials win over puzzle objects);
  the replaced instance is then no longer held when the inventory had no duplicate of it
  and the new definition is another object. If no held material has the type but a held
  puzzle object has, the first such puzzle object is replaced in the same way. If no
  held item has the type, \<open>applyPotion\<close> returns false and the player is unchanged.
\<close>

theorem applyPotion_transforms:
  assumes "\<forall>v\<in>set (heldMaterials p). registered materials v"
    and "\<forall>v\<in>set (heldPuzzleObjects p). registered puzzleObjects v"
  shows "((\<exists>v\<in>set (heldMaterials p). getMaterialType materials v = Inr (applyTo potion)) \<longrightarrow>
       (\<exists>i<length (heldMaterials p).
           getMaterialType materials (heldMaterials p ! i) = Inr (applyTo potion)
         \<and> (\<forall>j<i. getMaterialType materials (heldMaterials p ! j) \<noteq> Inr (applyTo potion))
         \<and> applyPotion materials potion p =
             Inr (True, p\<lparr>heldMaterials :=
                    (heldMaterials p)[i := lookup materials (turnsInto potion)]\<rparr>)
         \<and> (distinct (heldMaterials p)
              \<and> lookup materials (turnsInto potion) \<noteq> heldMaterials p ! i \<longrightarrow>
            heldMaterials p ! i
              \<notin> set ((heldMaterials p)[i := lookup materials (turnsInto potion)]))))
    \<and> ((\<forall>v\<in>set (heldMaterials p). getMaterialType materials v \<noteq> Inr (applyTo potion))
        \<and> (\<exists>v\<in>set (heldPuzzleObjects p). getPuzzleObjectType v = Inr (applyTo potion)) \<longrightarrow>
       (\<exists>i<length (heldPuzzleObjects p).
           getPuzzleObjectType (heldPuzzleObjects p ! i) = Inr (applyTo potion)
         \<and> (\<forall>j<i. getPuzzleObjectType (heldPuzzleObjects p ! j) \<noteq> Inr (applyTo potion))
         \<and> applyPotion materials potion p =
             Inr (True, p\<lparr>heldPuzzleObjects :=
                    (heldPuzzleObjects p)[i := lookup puzzleObjects (turnsInto potion)]\<rparr>)))
    \<and> ((\<forall>v\<in>set (heldMaterials p). getMaterialType materials v \<noteq> Inr (applyTo potion))
        \<and> (\<forall>v\<in>set (heldPuzzleObjects p). getPuzzleObjectType v \<noteq> Inr (applyTo potion)) \<longrightarrow>
       applyPotion materials potion p = Inr (False, p))"
    (is "?A \<and> ?B \<and> ?C")
proof (intro conjI)
  let ?T = "applyTo potion"
  let ?hm = "heldMaterials p"
  let ?hp = "heldPuzzleObjects p"
  show ?A
  proof
    assume "\<exists>v\<in>set ?hm. getMaterialType materials v = Inr ?T"
    then have "\<exists>v\<in>set ?hm. reverse_lookup materials v = Inr ?T"
      by (simp add: getMaterialType_def)
    from find_type_held [OF assms(1) this] obtain i where i: "i < length ?hm"
      "reverse_lookup materials (?hm ! i) = Inr ?T"
      "\<forall>j<i. reverse_lookup materials (?hm ! j) \<noteq> Inr ?T"
      "find_type (reverse_lookup materials) ?T ?hm = Inr (?hm ! i)"
      "?hm ! i \<noteq> None" "indexOf ?hm (?hm ! i) = int i"
      by blast
    from find_type_returns [OF assms(2)] obtain r where
      r: "find_type (reverse_lookup puzzleObjects) ?T ?hp = Inr r"
      by blast
    have gm: "getMaterialType materials = reverse_lookup materials"
      by (rule ext) (simp add: getMaterialType_def)
    have gp: "getPuzzleObjectType = reverse_lookup puzzleObjects"
      by (rule ext) (simp add: getPuzzleObjectType_def)
    have ap: "applyPotion materials potion p =
        Inr (True, p\<lparr>heldMaterials := ?hm[i := lookup materials (turnsInto potion)]\<rparr>)"
      using i r by (simp add: applyPotion_def gm gp array_splice_replace)
    have nh: "distinct ?hm \<and> lookup materials (turnsInto potion) \<noteq> ?hm ! i \<longrightarrow>
        ?hm ! i \<notin> set (?hm[i := lookup materials (turnsInto potion)])"
    proof
      assume d: "distinct ?hm \<and> lookup materials (turnsInto potion) \<noteq> ?hm ! i"
      show "?hm ! i \<notin> set (?hm[i := lookup materials (turnsInto potion)])"
      proof
        assume "?hm ! i \<in> set (?hm[i := lookup materials (turnsInto potion)])"
        then obtain j where j: "j < length ?hm"
          "?hm[i := lookup materials (turnsInto potion)] ! j = ?hm ! i"
          by (auto simp: in_set_conv_nth)
        show False
        proof (cases "j = i")
          case True
          with j i(1) d show False by simp
        next
          case False
          with j have "?hm ! j = ?hm ! i" by simp
          with d j(1) i(1) False show False by (simp add: nth_eq_iff_index_eq)
        qed
      qed
    qed
    from i(1-3) ap nh show "\<exists>i<length ?hm.
           getMaterialType materials (?hm ! i) = Inr ?T
         \<and> (\<forall>j<i. getMaterialType materials (?hm ! j) \<noteq> Inr ?T)
         \<and> applyPotion materials potion p =
             Inr (True, p\<lparr>heldMaterials := ?hm[i := lookup materials (turnsInto potion)]\<rparr>)
         \<and> (distinct ?hm \<and> lookup materials (turnsInto potion) \<noteq> ?hm ! i \<longrightarrow>
            ?hm ! i \<notin> set (?hm[i := lookup materials (turnsInto potion)]))"
      unfolding gm by blast
  qed
  show ?B
  proof
    assume a: "(\<forall>v\<in>set ?hm. getMaterialType materials v \<noteq> Inr ?T)
        \<and> (\<exists>v\<in>set ?hp. getPuzzleObjectType v = Inr ?T)"
    have gm: "getMaterialType materials = reverse_lookup materials"
      by (rule ext) (simp add: getMaterialType_def)
    have gp: "getPuzzleObjectType = reverse_lookup puzzleObjects"
      by (rule ext) (simp add: getPuzzleObjectType_def)
    from a have "\<forall>v\<in>set ?hm. reverse_lookup materials v \<noteq> Inr ?T" by (simp add: gm)
    from find_type_not_held [OF assms(1) this]
    have m: "find_type (reverse_lookup materials) ?T ?hm = Inr None" .
    from a have "\<exists>v\<in>set ?hp. reverse_lookup puzzleObjects v = Inr ?T" by (simp add: gp)
    from find_type_held [OF assms(2) this] obtain i where i: "i < length ?hp"
      "reverse_lookup puzzleObjects (?hp ! i) = Inr ?T"
      "\<forall>j<i. reverse_lookup puzzleObjects (?hp ! j) \<noteq> Inr ?T"
      "find_type (reverse_lookup puzzleObjects) ?T ?hp = Inr (?hp ! i)"
      "?hp ! i \<noteq> None" "indexOf ?hp (?hp ! i) = int i"
      by blast
    have ap: "applyPotion materials potion p =
        Inr (True, p\<lparr>heldPuzzleObjects := ?hp[i := lookup puzzleObjects (turnsInto potion)]\<rparr>)"
      using i m by (simp add: applyPotion_def gm gp array_splice_replace)
    from i(1-3) ap show "\<exists>i<length ?hp.
           getPuzzleObjectType (?hp ! i) = Inr ?T
         \<and> (\<forall>j<i. getPuzzleObjectType (?hp ! j) \<noteq> Inr ?T)
         \<and> applyPotion materials potion p =
             Inr (True, p\<lparr>heldPuzzleObjects :=
                    ?hp[i := lookup puzzleObjects (turnsInto potion)]\<rparr>)"
      unfolding gp by blast
  qed
  show ?C
  proof
    assume a: "(\<forall>v\<in>set ?hm. getMaterialType materials v \<noteq> Inr ?T)
        \<and> (\<forall>v\<in>set ?hp. getPuzzleObjectType v \<noteq> Inr ?T)"
    have gm: "getMaterialType materials = reverse_lookup materials"
      by (rule ext) (simp add: getMaterialType_def)
    have gp: "getPuzzleObjectType = reverse_lookup puzzleObjects"
      by (rule ext) (simp add: getPuzzleObjectType_def)
    from a have "\<forall>v\<in>set ?hm. reverse_lookup materials v \<noteq> Inr ?T" by (simp add: gm)
    from find_type_not_held [OF assms(1) this]
    have m: "find_type (reverse_lookup materials) ?T ?hm = Inr None" .
    from a have "\<forall>v\<in>set ?hp. reverse_lookup puzzleObjects v \<noteq> Inr ?T" by (simp add: gp)
    from find_type_not_held [OF assms(2) this]
    have o: "find_type (reverse_lookup puzzleObjects) ?T ?hp = Inr None" .
    from m o show "applyPotion materials potion p = Inr (False, p)"
      by (simp add: applyPotion_def gm gp)
  qed
qed


theorem applyPotion_transforms_witness:
  "list_all (registered example_materials) (heldMaterials example_player)
   \<and> list_all (registered puzzleObjects) (heldPuzzleObjects example_player)
   \<and> (\<exists>v\<in>set (heldMaterials example_player).
         getMaterialType example_materials v = Inr ''wood'')
   \<and> applyPotion example_materials \<lparr>applyTo = ''wood'', turnsInto = ''charcoal''\<rparr> example_player
       = Inr (True, example_player\<lparr>heldMaterials := [Some (Obj 12)]\<rparr>)
   \<and> applyPotion example_materials \<lparr>applyTo = ''radio'', turnsInto = ''key''\<rparr> example_player
       = Inr (False, example_player)"
proof -
  let ?wood = "\<lparr>applyTo = ''wood'', turnsInto = ''charcoal''\<rparr>"
  let ?radio = "\<lparr>applyTo = ''radio'', turnsInto = ''key''\<rparr>"
  have hm: "heldMaterials example_player = [Some (Obj 10)]"
    and hp: "heldPuzzleObjects example_player = [Some (Obj 0)]"
    by (simp_all add: example_player_def)
  have m: "\<forall>v\<in>set (heldMaterials example_player). registered example_materials v"
    by (simp add: hm registered_def example_materials_def)
  have o: "\<forall>v\<in>set (heldPuzzleObjects example_player). registered puzzleObjects v"
    by (simp add: hp registered_def puzzleObjects_def)
  have tw: "getMaterialType example_materials (Some (Obj 10)) = Inr ''wood''"
    by (simp add: getMaterialType_def reverse_lookup_def example_materials_def)
  have tk: "getPuzzleObjectType (Some (Obj 0)) = Inr ''key''"
    by (simp add: getPuzzleObjectType_def reverse_lookup_def puzzleObjects_def)
  have lc: "lookup example_materials ''charcoal'' = Some (Obj 12)"
    by (simp add: lookup_def example_materials_def)
  have w: "\<exists>v\<in>set (heldMaterials example_player).
      getMaterialType example_materials v = Inr (applyTo ?wood)"
    by (simp add: hm tw)
  from applyPotion_transforms [OF m o, of ?wood, THEN conjunct1, rule_format, OF w]
  obtain i where "i < length (heldMaterials example_player)"
    and "applyPotion example_materials ?wood example_player =
      Inr (True, example_player\<lparr>heldMaterials :=
        (heldMaterials example_player)[i := lookup example_materials (turnsInto ?wood)]\<rparr>)"
    by blast
  then have a: "applyPotion example_materials ?wood example_player
       = Inr (True, example_player\<lparr>heldMaterials := [Some (Obj 12)]\<rparr>)"
    by (simp add: hm lc)
  have r: "(\<forall>v\<in>set (heldMaterials example_player).
        getMaterialType example_materials v \<noteq> Inr (applyTo ?radio))
      \<and> (\<forall>v\<in>set (heldPuzzleObjects example_player).
        getPuzzleObjectType v \<noteq> Inr (applyTo ?radio))"
    by (simp add: hm hp tw tk)
  from applyPotion_transforms [OF m o, of ?radio, THEN conjunct2, THEN conjunct2, rule_format, OF r]
  have b: "applyPotion example_materials ?radio example_player = Inr (False, example_player)" .
  from m o w a b show ?thesis by (simp add: list_all_iff)
qed

text \<open>
  Claim C1 fails as it is stated, without the conditions above. A potion that turns wood
  into wood returns true and the player still holds the same wood. A potion that turns
  the key into a type that is no key of the registry puts \<open>undefined\<close> into the held
  puzzle objects; the next potion then throws, whether the player holds a material of
  its type (wood) or holds nothing of its type (radio).
\<close>

theorem applyPotion_unregistered_or_same:
  "applyPotion example_materials \<lparr>applyTo = ''wood'', turnsInto = ''wood''\<rparr> example_player
     = Inr (True, example_player)
   \<and> Some (Obj 10) \<in> set (heldMaterials example_player)
   \<and> getMaterialType example_materials (Some (Obj 10)) = Inr ''wood''
   \<and> applyPotion example_materials \<lparr>applyTo = ''key'', turnsInto = ''tiny-key''\<rparr> example_player
     = Inr (True, example_player\<lparr>heldPuzzleObjects := [None]\<rparr>)
   \<and> applyPotion example_materials \<lparr>applyTo = ''wood'', turnsInto = ''charcoal''\<rparr>
       (example_player\<lparr>heldPuzzleObjects := [None]\<rparr>)
     = Inl (Error ''PuzzleObject not found.'')
   \<and> applyPotion example_materials \<lparr>applyTo = ''radio'', turnsInto = ''key''\<rparr>
       (example_player\<lparr>heldPuzzleObjects := [None]\<rparr>)
     = Inl (Error ''PuzzleObject not found.'')"
  by (simp add: example_player_def applyPotion_def getMaterialType_def getPuzzleObjectType_def
      reverse_lookup_def example_materials_def puzzleObjects_def lookup_def array_splice_def
      inherited_keys_def)

section \<open>Saving and loading the player\<close>

lemma map_throwing_reverse_lookup:
  assumes "\<forall>v\<in>set vs. registered reg v"
  shows "\<exists>ks. map_throwing (reverse_lookup reg) vs = Inr ks
           \<and> (distinct (map fst reg) \<longrightarrow> map (lookup reg) ks = vs)"
  using assms
proof (induction vs)
  case Nil
  then show ?case by simp
next
  case (Cons v vs)
  from Cons.prems have "registered reg v" by simp
  then obtain k where k: "reverse_lookup reg v = Inr k"
    using reverse_lookup_registered by blast
  from Cons.prems have "\<forall>v\<in>set vs. registered reg v" by simp
  from Cons.IH [OF this] obtain ks where ks: "map_throwing (reverse_lookup reg) vs = Inr ks"
    "distinct (map fst reg) \<longrightarrow> map (lookup reg) ks = vs"
    by blast
  from k ks lookup_reverse_lookup [OF _ k]
  have "map_throwing (reverse_lookup reg) (v # vs) = Inr (k # ks)
      \<and> (distinct (map fst reg) \<longrightarrow> map (lookup reg) (k # ks) = v # vs)"
    by simp
  then show ?case by (rule exI)
qed


lemma less_eq_length_more:
  assumes "less_eq_number (Finite (real (l + Suc k))) c"
  shows "\<not> greater_eq_number (Finite (real l)) c"
    and "less_eq_number (Finite (real (Suc l + k))) c"
  using assms by (cases c; simp add: less_eq_number_def greater_eq_number_def)+

lemma takeMaterial_new:
  assumes "\<not> greater_eq_number (Finite (real (length (heldMaterials p)))) (materialInventorySize p)"
    and "Some r \<notin> set (heldMaterials p)"
  shows "takeMaterial (Some r) True p =
    Inr (p\<lparr>heldMaterials := heldMaterials p @ [Some r], effects := effects p @ [HotbarAddItem r]\<rparr>)"
  using assms by (simp add: takeMaterial_def hasMaterial_def indexOf_absent Let_def emit_def)

lemma takePuzzleObject_new:
  "takePuzzleObject (Some r) True p =
    Inr (p\<lparr>heldPuzzleObjects := heldPuzzleObjects p @ [Some r],
           effects := effects p @ [HotbarAddItem r]\<rparr>)"
  by (simp add: takePuzzleObject_def Let_def emit_def)

lemma takeMaterials_restores:
  assumes "map (lookup materials) ks = vs" and "None \<notin> set vs"
    and "distinct (heldMaterials p @ vs)"
    and "less_eq_number (Finite (real (length (heldMaterials p) + length vs)))
           (materialInventorySize p)"
  shows "\<exists>p'. takeMaterials materials ks p = Inr p'
     \<and> heldMaterials p' = heldMaterials p @ vs
     \<and> heldPuzzleObjects p' = heldPuzzleObjects p
     \<and> materialInventorySize p' = materialInventorySize p
     \<and> p_x p' = p_x p \<and> p_y p' = p_y p"
  using assms
proof (induction ks arbitrary: p vs)
  case Nil
  then show ?case by simp
next
  case (Cons k ks)
  from Cons.prems(1) obtain v vs' where vs: "vs = v # vs'" "lookup materials k = v"
    "map (lookup materials) ks = vs'"
    by auto
  with Cons.prems(2) obtain r where r: "v = Some r" by (cases v) auto
  let ?p1 = "p\<lparr>heldMaterials := heldMaterials p @ [Some r],
               effects := effects p @ [HotbarAddItem r]\<rparr>"
  from Cons.prems(4) vs(1) have c: "less_eq_number
      (Finite (real (length (heldMaterials p) + Suc (length vs')))) (materialInventorySize p)"
    by simp
  from Cons.prems(3) vs r less_eq_length_more(1) [OF c]
  have t: "takeMaterial (Some r) True p = Inr ?p1"
    by (intro takeMaterial_new) auto
  from Cons.prems(2,3) vs r less_eq_length_more(2) [OF c]
  have "None \<notin> set vs'" "distinct (heldMaterials ?p1 @ vs')"
    "less_eq_number (Finite (real (length (heldMaterials ?p1) + length vs')))
       (materialInventorySize ?p1)"
    by auto
  from Cons.IH [OF vs(3) this] obtain p' where p': "takeMaterials materials ks ?p1 = Inr p'"
    "heldMaterials p' = heldMaterials ?p1 @ vs'"
    "heldPuzzleObjects p' = heldPuzzleObjects ?p1"
    "materialInventorySize p' = materialInventorySize ?p1"
    "p_x p' = p_x ?p1" "p_y p' = p_y ?p1"
    by blast
  have "takeMaterials materials (k # ks) p = Inr p'"
    using t p'(1) vs(2) r by simp
  moreover have "heldMaterials p' = heldMaterials p @ vs"
    using p'(2) vs(1) r by simp
  moreover have "heldPuzzleObjects p' = heldPuzzleObjects p"
    "materialInventorySize p' = materialInventorySize p" "p_x p' = p_x p" "p_y p' = p_y p"
    using p'(3-6) by simp_all
  ultimately show ?case by blast
qed

lemma takePuzzleObjects_restores:
  assumes "map (lookup puzzleObjects) ks = vs" and "None \<notin> set vs"
  shows "\<exists>p'. takePuzzleObjects ks p = Inr p'
     \<and> heldPuzzleObjects p' = heldPuzzleObjects p @ vs
     \<and> heldMaterials p' = heldMaterials p
     \<and> materialInventorySize p' = materialInventorySize p
     \<and> p_x p' = p_x p \<and> p_y p' = p_y p"
  using assms
proof (induction ks arbitrary: p vs)
  case Nil
  then show ?case by simp
next
  case (Cons k ks)
  from Cons.prems(1) obtain v vs' where vs: "vs = v # vs'" "lookup puzzleObjects k = v"
    "map (lookup puzzleObjects) ks = vs'"
    by auto
  with Cons.prems(2) obtain r where r: "v = Some r" by (cases v) auto
  let ?p1 = "p\<lparr>heldPuzzleObjects := heldPuzzleObjects p @ [Some r],
               effects := effects p @ [HotbarAddItem r]\<rparr>"
  from Cons.prems vs have "None \<notin> set vs'" by auto
  from Cons.IH [OF vs(3) this] obtain p' where p': "takePuzzleObjects ks ?p1 = Inr p'"
    "heldPuzzleObjects p' = heldPuzzleObjects ?p1 @ vs'"
    "heldMaterials p' = heldMaterials ?p1"
    "materialInventorySize p' = materialInventorySize ?p1"
    "p_x p' = p_x ?p1" "p_y p' = p_y ?p1"
    by blast
  have "takePuzzleObjects (k # ks) p = Inr p'"
    using p'(1) vs(2) r by (simp add: takePuzzleObject_new)
  moreover have "heldPuzzleObjects p' = heldPuzzleObjects p @ vs"
    using p'(2) vs(1) r by simp
  moreover have "heldMaterials p' = heldMaterials p"
    "materialInventorySize p' = materialInventorySize p" "p_x p' = p_x p" "p_y p' = p_y p"
    using p'(3-6) by simp_all
  ultimately show ?case by blast
qed

lemma registered_not_None: "\<forall>v\<in>set vs. registered reg v \<Longrightarrow> None \<notin> set vs"
  by (auto simp: registered_def)

lemma distinct_puzzleObjects: "distinct (map fst puzzleObjects)"
  by (simp add: puzzleObjects_def)

text \<open>
  Claim C2. Let the keys of the material registry be distinct (they are the keys of an
  object), every held item be a definition of its registry, the held materials be
  pairwise different and no more than \<open>materialInventorySize\<close> (their number is
  \<open><=\<close> the capacity). Then \<open>serialize\<close>
  returns, the constructor returns on what it returned, and the new player has the same
  \<open>x\<close> and \<open>y\<close>, the same held materials and held puzzle objects in the same order
  (the same definitions, hence the same keys: it serializes to the same data) and the
  same \<open>materialInventorySize\<close>.
\<close>

theorem serialize_roundtrip:
  assumes "distinct (map fst materials)"
    and "\<forall>v\<in>set (heldMaterials p). registered materials v"
    and "\<forall>v\<in>set (heldPuzzleObjects p). registered puzzleObjects v"
    and "distinct (heldMaterials p)"
    and "less_eq_number (Finite (real (length (heldMaterials p)))) (materialInventorySize p)"
  shows "\<exists>playerData p'. serialize materials p = Inr playerData
     \<and> new_Player materials playerData = Inr p'
     \<and> p_x p' = p_x p \<and> p_y p' = p_y p
     \<and> heldMaterials p' = heldMaterials p
     \<and> heldPuzzleObjects p' = heldPuzzleObjects p
     \<and> materialInventorySize p' = materialInventorySize p
     \<and> serialize materials p' = Inr playerData"
proof -
  from map_throwing_reverse_lookup [OF assms(2)] assms(1) obtain ms where
    ms: "map_throwing (reverse_lookup materials) (heldMaterials p) = Inr ms"
      "map (lookup materials) ms = heldMaterials p"
    by blast
  from map_throwing_reverse_lookup [OF assms(3)] distinct_puzzleObjects obtain pos where
    pos: "map_throwing (reverse_lookup puzzleObjects) (heldPuzzleObjects p) = Inr pos"
      "map (lookup puzzleObjects) pos = heldPuzzleObjects p"
    by blast
  have gm: "getMaterialType materials = reverse_lookup materials"
    by (rule ext) (simp add: getMaterialType_def)
  have gp: "getPuzzleObjectType = reverse_lookup puzzleObjects"
    by (rule ext) (simp add: getPuzzleObjectType_def)
  let ?d = "\<lparr>d_x = p_x p, d_y = p_y p, d_heldMaterials = ms, d_heldPuzzleObjects = pos,
             d_materialInventorySize = Some (materialInventorySize p)\<rparr>"
  have s: "serialize materials p = Inr ?d"
    by (simp add: serialize_def gm gp ms pos)
  let ?p0 = "\<lparr>p_x = p_x p, p_y = p_y p, p_z = Finite 1, targetX = p_x p,
               materialInventorySize = materialInventorySize p,
               heldMaterials = [], heldPuzzleObjects = [],
               effects = [HotbarSetCapacity (materialInventorySize p)]\<rparr>"
  from assms(2) have n1: "None \<notin> set (heldMaterials p)" by (rule registered_not_None)
  from assms(3) have n2: "None \<notin> set (heldPuzzleObjects p)" by (rule registered_not_None)
  from assms(4,5) have "distinct (heldMaterials ?p0 @ heldMaterials p)"
    "less_eq_number (Finite (real (length (heldMaterials ?p0) + length (heldMaterials p))))
       (materialInventorySize ?p0)"
    by simp_all
  from takeMaterials_restores [OF ms(2) n1 this] obtain p1 where
    p1: "takeMaterials materials ms ?p0 = Inr p1"
      "heldMaterials p1 = heldMaterials ?p0 @ heldMaterials p"
      "heldPuzzleObjects p1 = heldPuzzleObjects ?p0"
      "materialInventorySize p1 = materialInventorySize ?p0"
      "p_x p1 = p_x ?p0" "p_y p1 = p_y ?p0"
    by blast
  from takePuzzleObjects_restores [OF pos(2) n2, of p1] obtain p2 where
    p2: "takePuzzleObjects pos p1 = Inr p2"
      "heldPuzzleObjects p2 = heldPuzzleObjects p1 @ heldPuzzleObjects p"
      "heldMaterials p2 = heldMaterials p1"
      "materialInventorySize p2 = materialInventorySize p1"
      "p_x p2 = p_x p1" "p_y p2 = p_y p1"
    by blast
  have n: "new_Player materials ?d = Inr p2"
    by (simp add: new_Player_def p1(1) p2(1))
  from p1(2-6) p2(2-6) have f2: "p_x p2 = p_x p" "p_y p2 = p_y p"
    "heldMaterials p2 = heldMaterials p"
    "heldPuzzleObjects p2 = heldPuzzleObjects p"
    "materialInventorySize p2 = materialInventorySize p"
    by simp_all
  have s2: "serialize materials p2 = Inr ?d"
    by (simp add: serialize_def gm gp ms pos f2)
  from s n f2 s2 show ?thesis by blast
qed


theorem serialize_roundtrip_witness:
  "distinct (map fst example_materials)
   \<and> list_all (registered example_materials) (heldMaterials example_player)
   \<and> list_all (registered puzzleObjects) (heldPuzzleObjects example_player)
   \<and> distinct (heldMaterials example_player)
   \<and> less_eq_number (Finite (real (length (heldMaterials example_player))))
        (materialInventorySize example_player)
   \<and> serialize example_materials example_player =
       Inr \<lparr>d_x = Finite 100, d_y = Finite 300, d_heldMaterials = [''wood''],
            d_heldPuzzleObjects = [''key''], d_materialInventorySize = Some (Finite 2)\<rparr>
   \<and> (\<exists>p'. new_Player example_materials
              \<lparr>d_x = Finite 100, d_y = Finite 300, d_heldMaterials = [''wood''],
               d_heldPuzzleObjects = [''key''], d_materialInventorySize = Some (Finite 2)\<rparr>
            = Inr p'
         \<and> p_x p' = Finite 100 \<and> p_y p' = Finite 300 \<and> heldMaterials p' = [Some (Obj 10)]
         \<and> heldPuzzleObjects p' = [Some (Obj 0)] \<and> materialInventorySize p' = Finite 2)"
proof -
  let ?d = "\<lparr>d_x = Finite 100, d_y = Finite 300, d_heldMaterials = [''wood''],
            d_heldPuzzleObjects = [''key''], d_materialInventorySize = Some (Finite 2)\<rparr>"
  have f: "p_x example_player = Finite 100" "p_y example_player = Finite 300"
    "heldMaterials example_player = [Some (Obj 10)]" "heldPuzzleObjects example_player = [Some (Obj 0)]"
    "materialInventorySize example_player = Finite 2"
    by (simp_all add: example_player_def)
  have h1: "distinct (map fst example_materials)"
    by (simp add: example_materials_def)
  have h2: "\<forall>v\<in>set (heldMaterials example_player). registered example_materials v"
    by (simp add: f registered_def example_materials_def)
  have h3: "\<forall>v\<in>set (heldPuzzleObjects example_player). registered puzzleObjects v"
    by (simp add: f registered_def puzzleObjects_def)
  have h4: "distinct (heldMaterials example_player)"
    by (simp add: f)
  have h5: "less_eq_number (Finite (real (length (heldMaterials example_player))))
      (materialInventorySize example_player)"
    by (simp add: f less_eq_number_def greater_eq_number_def)
  have s: "serialize example_materials example_player = Inr ?d"
    by (simp add: serialize_def f getMaterialType_def getPuzzleObjectType_def reverse_lookup_def
        example_materials_def puzzleObjects_def)
  from serialize_roundtrip [OF h1 h2 h3 h4 h5] obtain playerData p' where
    r: "serialize example_materials example_player = Inr playerData"
      "new_Player example_materials playerData = Inr p'"
      "p_x p' = p_x example_player" "p_y p' = p_y example_player"
      "heldMaterials p' = heldMaterials example_player"
      "heldPuzzleObjects p' = heldPuzzleObjects example_player"
      "materialInventorySize p' = materialInventorySize example_player"
    by blast
  from r(1) s have "playerData = ?d" by simp
  with r(2-7) f have "new_Player example_materials ?d = Inr p'
      \<and> p_x p' = Finite 100 \<and> p_y p' = Finite 300 \<and> heldMaterials p' = [Some (Obj 10)]
      \<and> heldPuzzleObjects p' = [Some (Obj 0)] \<and> materialInventorySize p' = Finite 2"
    by simp
  then have "\<exists>p'. new_Player example_materials ?d = Inr p'
      \<and> p_x p' = Finite 100 \<and> p_y p' = Finite 300 \<and> heldMaterials p' = [Some (Obj 10)]
      \<and> heldPuzzleObjects p' = [Some (Obj 0)] \<and> materialInventorySize p' = Finite 2"
    by (rule exI)
  with h1 h2 h3 h4 h5 s show ?thesis by (simp add: list_all_iff)
qed

section \<open>Visibility of a spawner\<close>












section \<open>Thrown errors\<close>
















section \<open>Capacity of a constructed player\<close>

text \<open>
  A player that the constructor returns with a capacity that is a whole number and not
  negative holds at most \<open>materialInventorySize\<close> materials.
\<close>

lemma takeMaterial_bound:
  assumes "takeMaterial v b p = Inr p'"
    and "materialInventorySize p = Finite (of_int n)"
    and "int (length (heldMaterials p)) \<le> n"
  shows "materialInventorySize p' = Finite (of_int n) \<and> int (length (heldMaterials p')) \<le> n"
  using assms
  by (cases v) (auto simp: takeMaterial_def Let_def greater_eq_length split: if_splits)

lemma takeMaterials_bound:
  assumes "takeMaterials materials ks p = Inr p'"
    and "materialInventorySize p = Finite (of_int n)"
    and "int (length (heldMaterials p)) \<le> n"
  shows "materialInventorySize p' = Finite (of_int n) \<and> int (length (heldMaterials p')) \<le> n"
  using assms
proof (induction ks arbitrary: p)
  case Nil
  then show ?case by simp
next
  case (Cons k ks)
  show ?case
  proof (cases "takeMaterial (lookup materials k) True p")
    case (Inl e)
    with Cons.prems(1) show ?thesis by simp
  next
    case (Inr p1)
    from takeMaterial_bound [OF Inr Cons.prems(2,3)]
    have b: "materialInventorySize p1 = Finite (of_int n)"
      "int (length (heldMaterials p1)) \<le> n"
      by simp_all
    from Cons.prems(1) Inr have "takeMaterials materials ks p1 = Inr p'" by simp
    from Cons.IH [OF this b] show ?thesis .
  qed
qed

lemma takePuzzleObject_materials:
  assumes "takePuzzleObject v b p = Inr p'"
  shows "heldMaterials p' = heldMaterials p \<and> materialInventorySize p' = materialInventorySize p"
  using assms by (cases v) (auto simp: takePuzzleObject_def Let_def)

lemma takePuzzleObjects_materials:
  assumes "takePuzzleObjects ks p = Inr p'"
  shows "heldMaterials p' = heldMaterials p \<and> materialInventorySize p' = materialInventorySize p"
  using assms
proof (induction ks arbitrary: p)
  case Nil
  then show ?case by simp
next
  case (Cons k ks)
  show ?case
  proof (cases "takePuzzleObject (lookup puzzleObjects k) True p")
    case (Inl e)
    with Cons.prems show ?thesis by simp
  next
    case (Inr p1)
    from Cons.prems Inr have "takePuzzleObjects ks p1 = Inr p'" by simp
    from Cons.IH [OF this] takePuzzleObject_materials [OF Inr] show ?thesis by simp
  qed
qed

lemma new_Player_capacity:
  assumes "new_Player materials playerData = Inr p"
    and "d_materialInventorySize playerData = Some (Finite (of_int n))"
    and "0 \<le> n"
  shows "materialInventorySize p = Finite (of_int n) \<and> int (length (heldMaterials p)) \<le> n"
proof -
  define p0 where "p0 = \<lparr>p_x = d_x playerData, p_y = d_y playerData, p_z = Finite 1,
      targetX = d_x playerData, materialInventorySize = Finite (of_int n),
      heldMaterials = [], heldPuzzleObjects = [],
      effects = [HotbarSetCapacity (Finite (of_int n))]\<rparr>"
  have c: "new_Player materials playerData =
      (case takeMaterials materials (d_heldMaterials playerData) p0 of
         Inl e \<Rightarrow> Inl e
       | Inr p1 \<Rightarrow> takePuzzleObjects (d_heldPuzzleObjects playerData) p1)"
    by (simp add: new_Player_def Let_def p0_def assms(2))
  show ?thesis
  proof (cases "takeMaterials materials (d_heldMaterials playerData) p0")
    case (Inl e)
    with assms(1) c show ?thesis by simp
  next
    case (Inr p1)
    with assms(1) c have t: "takePuzzleObjects (d_heldPuzzleObjects playerData) p1 = Inr p"
      by simp
    have "materialInventorySize p0 = Finite (of_int n)"
      "int (length (heldMaterials p0)) \<le> n"
      using assms(3) by (simp_all add: p0_def)
    from takeMaterials_bound [OF Inr this] takePuzzleObjects_materials [OF t]
    show ?thesis by simp
  qed
qed

end
